theory Spec2Isabelle
  imports Complex_Main
begin

section \<open>Data model\<close>

text \<open>
  The source works on NeuroM trees: a node has a \<^verbatim>\<open>value\<close>, a list of \<^verbatim>\<open>children\<close> and a
  \<^verbatim>\<open>parent\<close> back-reference. A tree is represented by its root; the parent of a node is
  recovered by the traversal, and the root has no parent.
\<close>

datatype 'a tree = Tree (node_value: 'a) (children: "'a tree list")

text \<open>
  A sample row of the data block. Only the columns the source reads
  (\<^verbatim>\<open>COLS.X\<close>, \<^verbatim>\<open>COLS.Y\<close>, \<^verbatim>\<open>COLS.Z\<close>, \<^verbatim>\<open>COLS.R\<close>) are kept.
\<close>

record row =
  COLS_X :: real
  COLS_Y :: real
  COLS_Z :: real
  COLS_R :: real

datatype py_error = IndexError | AttributeError

type_synonym vec3 = "real \<times> real \<times> real"
type_synonym vertex = "real \<times> real"
type_synonym polygon = "vertex list"
type_synonym segment = "row \<times> row"

section \<open>Floating-point arithmetic\<close>

text \<open>
  A Python float is modelled as the real number it denotes; comparisons of floats
  (\<^verbatim>\<open><\<close>, \<^verbatim>\<open><=\<close>, \<^verbatim>\<open>>\<close>, \<^verbatim>\<open>!=\<close>, \<^verbatim>\<open>max\<close>, \<^verbatim>\<open>np.sort\<close>) are exact. Every operation that rounds
  its result is a field of the record \<open>float_ops\<close>: the four arithmetic operations, and
  the library functions on floats that the source calls. The functions of the model take
  the record as their first argument, and a statement about them holds for every such
  record, hence for the arithmetic of the machine, unless it names one: \<open>exact_ops\<close> is
  the arithmetic without rounding, \<open>binary64_ops\<close> rounds the four arithmetic operations
  to the nearest double. Floats are taken to be finite (no nan, no infinity), except where
  a division by zero is written out.

  \<^verbatim>\<open>segment_length\<close> and \<^verbatim>\<open>vector_projection\<close> of \<^verbatim>\<open>neurom.analysis.morphmath\<close> are not among
  the source files at hand: they are fields of the record as well.
\<close>

record float_ops =
  fl_add :: "real \<Rightarrow> real \<Rightarrow> real"
  fl_sub :: "real \<Rightarrow> real \<Rightarrow> real"
  fl_mul :: "real \<Rightarrow> real \<Rightarrow> real"
  fl_div :: "real \<Rightarrow> real \<Rightarrow> real"
  segment_length :: "segment \<Rightarrow> real"
  vector_projection :: "vec3 \<Rightarrow> vec3 \<Rightarrow> vec3"
  np_dot :: "vec3 \<Rightarrow> vec3 \<Rightarrow> real"
  np_linalg_norm :: "vec3 \<Rightarrow> real"
  np_allclose :: "vec3 \<Rightarrow> vec3 \<Rightarrow> bool"

text \<open>The real number denoted by the float literal \<^verbatim>\<open>0.55\<close> (the nearest double).\<close>

definition literal_0_55 :: real where
  "literal_0_55 = 2476979795053773 / 4503599627370496"

text \<open>numpy's arithmetic on coordinate triples works component by component.\<close>

fun vsub :: "float_ops \<Rightarrow> vec3 \<Rightarrow> vec3 \<Rightarrow> vec3" where
  "vsub ops (a1, a2, a3) (b1, b2, b3) = (fl_sub ops a1 b1, fl_sub ops a2 b2, fl_sub ops a3 b3)"

fun vadd :: "float_ops \<Rightarrow> vec3 \<Rightarrow> vec3 \<Rightarrow> vec3" where
  "vadd ops (a1, a2, a3) (b1, b2, b3) = (fl_add ops a1 b1, fl_add ops a2 b2, fl_add ops a3 b3)"

fun vscale :: "float_ops \<Rightarrow> real \<Rightarrow> vec3 \<Rightarrow> vec3" where
  "vscale ops c (a1, a2, a3) = (fl_mul ops c a1, fl_mul ops c a2, fl_mul ops c a3)"

subsection \<open>The arithmetic without rounding\<close>

fun dot :: "vec3 \<Rightarrow> vec3 \<Rightarrow> real" where
  "dot (a1, a2, a3) (b1, b2, b3) = a1 * b1 + a2 * b2 + a3 * b3"

text \<open>
  \<^verbatim>\<open>np.allclose(a, b)\<close> with numpy's default tolerances \<^verbatim>\<open>rtol=1e-05\<close> and \<^verbatim>\<open>atol=1e-08\<close>:
  every component satisfies \<^verbatim>\<open>|a - b| <= atol + rtol * |b|\<close>.
\<close>

definition isclose :: "real \<Rightarrow> real \<Rightarrow> bool" where
  "isclose a b \<longleftrightarrow> \<bar>a - b\<bar> \<le> 1 / 10 ^ 8 + 1 / 10 ^ 5 * \<bar>b\<bar>"

fun allclose :: "vec3 \<Rightarrow> vec3 \<Rightarrow> bool" where
  "allclose (a1, a2, a3) (b1, b2, b3) \<longleftrightarrow> isclose a1 b1 \<and> isclose a2 b2 \<and> isclose a3 b3"

text \<open>
  Modelled from the spec: \<^verbatim>\<open>segment_length\<close> is missing; it is the geometric (Euclidean)
  length of the segment between two rows.
\<close>

definition euclidean_length :: "segment \<Rightarrow> real" where
  "euclidean_length seg =
     sqrt ((COLS_X (snd seg) - COLS_X (fst seg))\<^sup>2
         + (COLS_Y (snd seg) - COLS_Y (fst seg))\<^sup>2
         + (COLS_Z (snd seg) - COLS_Z (fst seg))\<^sup>2)"

text \<open>
  Modelled from the spec: \<^verbatim>\<open>vector_projection\<close> is missing; it is the projection of the first
  vector onto the direction of the second.
\<close>

fun projection :: "vec3 \<Rightarrow> vec3 \<Rightarrow> vec3" where
  "projection v1 (b1, b2, b3) =
     (dot v1 (b1, b2, b3) / dot (b1, b2, b3) (b1, b2, b3) * b1,
      dot v1 (b1, b2, b3) / dot (b1, b2, b3) (b1, b2, b3) * b2,
      dot v1 (b1, b2, b3) / dot (b1, b2, b3) (b1, b2, b3) * b3)"

definition exact_ops :: float_ops where
  "exact_ops =
     \<lparr>fl_add = (+), fl_sub = (-), fl_mul = (*), fl_div = (/),
      segment_length = euclidean_length,
      vector_projection = projection,
      np_dot = dot,
      np_linalg_norm = (\<lambda>v. sqrt (dot v v)),
      np_allclose = allclose\<rparr>"

subsection \<open>Rounding to the nearest double\<close>

text \<open>
  IEEE 754 binary64 arithmetic returns the double nearest to the exact result, ties going
  to the even significand. \<open>binary64\<close> is that rounding for results in the normal range
  (a significand of 53 bits; overflow and subnormal results are left out):
  for \<open>2\<^sup>e \<le> |x| < 2\<^sup>e\<^sup>+\<^sup>1\<close> the result is the multiple of \<open>2\<^sup>e\<^sup>-\<^sup>5\<^sup>2\<close> nearest to \<open>x\<close>.
  In \<open>binary64_ops\<close> the four arithmetic operations round; the library functions are
  those of \<open>exact_ops\<close>.
\<close>

definition round_half_even :: "real \<Rightarrow> int" where
  "round_half_even x =
     (if x - of_int \<lfloor>x\<rfloor> < 1 / 2 then \<lfloor>x\<rfloor>
      else if x - of_int \<lfloor>x\<rfloor> > 1 / 2 then \<lfloor>x\<rfloor> + 1
      else if even \<lfloor>x\<rfloor> then \<lfloor>x\<rfloor> else \<lfloor>x\<rfloor> + 1)"

definition binary64 :: "real \<Rightarrow> real" where
  "binary64 x =
     (if x = 0 then 0
      else of_int (round_half_even (x / 2 powr of_int (\<lfloor>log 2 \<bar>x\<bar>\<rfloor> - 52)))
           * 2 powr of_int (\<lfloor>log 2 \<bar>x\<bar>\<rfloor> - 52))"

definition binary64_ops :: float_ops where
  "binary64_ops =
     exact_ops\<lparr>fl_add := \<lambda>a b. binary64 (a + b), fl_sub := \<lambda>a b. binary64 (a - b),
               fl_mul := \<lambda>a b. binary64 (a * b), fl_div := \<lambda>a b. binary64 (a / b)\<rparr>"

text \<open>The real numbers denoted by the float literals \<^verbatim>\<open>0.1\<close>, \<^verbatim>\<open>0.3\<close> and \<^verbatim>\<open>0.4\<close>.\<close>

definition literal_0_1 :: real where
  "literal_0_1 = 3602879701896397 / 36028797018963968"

definition literal_0_3 :: real where
  "literal_0_3 = 5404319552844595 / 18014398509481984"

definition literal_0_4 :: real where
  "literal_0_4 = 3602879701896397 / 9007199254740992"

section \<open>Tree metrics used by the dendrogram\<close>

text \<open>
  Modelled from the spec: \<^verbatim>\<open>n_terminations\<close>, \<^verbatim>\<open>n_segments\<close> and \<^verbatim>\<open>n_bifurcations\<close> of
  \<^verbatim>\<open>neurom.analysis.morphtree\<close> are not among the source files at hand. The glossary gives:
  a termination is a leaf node (no children), a bifurcation is a node with two or more
  children, and a segment is the line between a node's row and a child's row (the
  dendrogram reads one row per node).
\<close>

fun n_terminations :: "'a tree \<Rightarrow> nat" where
  "n_terminations (Tree v cs) = (if cs = [] then 1 else sum_list (map n_terminations cs))"

fun n_segments :: "'a tree \<Rightarrow> nat" where
  "n_segments (Tree v cs) = sum_list (map (\<lambda>c. 1 + n_segments c) cs)"

fun n_bifurcations :: "'a tree \<Rightarrow> nat" where
  "n_bifurcations (Tree v cs) =
     (if 2 \<le> length cs then 1 else 0) + sum_list (map n_bifurcations cs)"

section \<open>Dendrogram: polygon count\<close>

definition total_rectangles :: "'a tree \<Rightarrow> nat" where
  "total_rectangles t = n_segments t + n_bifurcations t * 2"

text \<open>
  The object handed to \<^verbatim>\<open>Dendrogram\<close>: a \<^verbatim>\<open>Tree\<close>, a \<^verbatim>\<open>Neuron\<close> (with its \<^verbatim>\<open>neurites\<close>), or an
  object of any other type, of which only the \<^verbatim>\<open>neurites\<close> attribute (if it has one) can
  be read by the source.
\<close>

datatype dendro_obj =
    TreeObj "row tree"
  | NeuronObj "row tree list"
  | OtherObj "row tree list option"

fun n_rectangles :: "dendro_obj \<Rightarrow> nat" where
  "n_rectangles (TreeObj t) = total_rectangles t"
| "n_rectangles (NeuronObj neurites) = sum_list (map total_rectangles neurites)"
| "n_rectangles (OtherObj a) = 0"

section \<open>Dendrogram: polygon shapes and offsets\<close>

definition vertical_segment ::
  "float_ops \<Rightarrow> vertex \<Rightarrow> vertex \<Rightarrow> vertex \<Rightarrow> real \<times> real \<Rightarrow> polygon" where
  "vertical_segment ops old_offs new_offs spacing radii =
     [(fl_sub ops (fst new_offs) (fst radii), fl_add ops (snd old_offs) (snd spacing)),
      (fl_sub ops (fst new_offs) (snd radii), snd new_offs),
      (fl_add ops (fst new_offs) (snd radii), snd new_offs),
      (fl_add ops (fst new_offs) (fst radii), fl_add ops (snd old_offs) (snd spacing))]"

definition horizontal_segment ::
  "float_ops \<Rightarrow> vertex \<Rightarrow> vertex \<Rightarrow> vertex \<Rightarrow> real \<Rightarrow> polygon" where
  "horizontal_segment ops old_offs new_offs spacing diameter =
     [(fst old_offs, fl_add ops (snd old_offs) (snd spacing)),
      (fst new_offs, fl_add ops (snd old_offs) (snd spacing)),
      (fst new_offs, fl_sub ops (fl_add ops (snd old_offs) (snd spacing)) diameter),
      (fst old_offs, fl_sub ops (fl_add ops (snd old_offs) (snd spacing)) diameter)]"

text \<open>
  \<^verbatim>\<open>_spacingx\<close> updates \<^verbatim>\<open>max_dims[0]\<close> in place and returns the start position; the model
  returns the updated \<^verbatim>\<open>max_dims\<close> with it.
\<close>

definition spacingx ::
  "float_ops \<Rightarrow> 'a tree \<Rightarrow> real \<times> real \<Rightarrow> real \<Rightarrow> real \<Rightarrow> (real \<times> real) \<times> real" where
  "spacingx ops node max_dims xoffset xspace =
     (let x_spacing = fl_mul ops (real (n_terminations node)) xspace;
          max_dims' = (if x_spacing > fst max_dims then (x_spacing, snd max_dims) else max_dims)
      in (max_dims', fl_sub ops xoffset (fl_div ops x_spacing 2)))"

definition update_offsets ::
  "float_ops \<Rightarrow> real \<Rightarrow> vertex \<Rightarrow> nat \<Rightarrow> vertex \<Rightarrow> real \<Rightarrow> vertex" where
  "update_offsets ops start_x spacing terminations offsets len =
     (fl_add ops start_x (fl_div ops (fl_mul ops (fst spacing) (real terminations)) 2),
      fl_add ops (fl_add ops (snd offsets) (fl_mul ops (snd spacing) 2)) len)"

section \<open>Dendrogram: the layout object\<close>

record dendrogram =
  obj :: dendro_obj
  n :: nat
  scale :: real
  max_dims :: "real \<times> real"
  trees :: "polygon list list"
  dims :: "(real \<times> real) list"
  rectangles :: "polygon list"

definition Dendrogram_init :: "dendro_obj \<Rightarrow> dendrogram" where
  "Dendrogram_init ob =
     \<lparr>obj = ob, n = 0, scale = 1, max_dims = (0, 0), trees = [], dims = [],
      rectangles = replicate (n_rectangles ob) (replicate 4 (0, 0))\<rparr>"

text \<open>
  A method of the object either returns, or raises an exception and leaves the object in
  the state it had reached: the error carries that state.
\<close>

type_synonym 'a raising = "(py_error \<times> dendrogram) + 'a"

text \<open>
  \<^verbatim>\<open>self._rectangles[self._n] = p; self._n += 1\<close>: the indexed write of a numpy array
  raises IndexError when the index is not below the length of the buffer.
\<close>

definition store_rectangle :: "dendrogram \<Rightarrow> polygon \<Rightarrow> dendrogram raising" where
  "store_rectangle self p =
     (if n self < length (rectangles self)
      then Inr (self\<lparr>rectangles := (rectangles self)[n self := p], n := n self + 1\<rparr>)
      else Inl (IndexError, self))"

text \<open>
  \<^verbatim>\<open>_generate_dendro\<close>: \<open>generate_dendro\<close> is the function, \<open>dendro_loop\<close> its loop over the
  children (threading \<^verbatim>\<open>start_x\<close>), \<open>dendro_body\<close> one iteration of the loop. The list
  \<^verbatim>\<open>max_dims\<close> is one object shared by \<^verbatim>\<open>self._max_dims\<close> and every recursive call, so it
  is a field of the state.
\<close>

function generate_dendro ::
  "float_ops \<Rightarrow> dendrogram \<Rightarrow> row tree \<Rightarrow> vertex \<Rightarrow> vertex \<Rightarrow> dendrogram raising"
and dendro_loop ::
  "float_ops \<Rightarrow> dendrogram \<Rightarrow> row tree \<Rightarrow> real \<Rightarrow> vertex \<Rightarrow> vertex \<Rightarrow> real \<Rightarrow> row tree list
     \<Rightarrow> dendrogram raising"
and dendro_body ::
  "float_ops \<Rightarrow> dendrogram \<Rightarrow> row tree \<Rightarrow> real \<Rightarrow> vertex \<Rightarrow> vertex \<Rightarrow> real \<Rightarrow> row tree
     \<Rightarrow> (dendrogram \<times> real) raising"
where
  "generate_dendro ops self current_node spacing offsets =
     (case spacingx ops current_node (max_dims self) (fst offsets) (fst spacing) of
        (md, start_x) \<Rightarrow>
          dendro_loop ops (self\<lparr>max_dims := md\<rparr>) current_node
            (fl_mul ops (COLS_R (node_value current_node)) (scale self)) spacing offsets start_x
            (children current_node))"
| "dendro_loop ops self current_node r0 spacing offsets start_x [] = Inr self"
| "dendro_loop ops self current_node r0 spacing offsets start_x (child # rest) =
     (case dendro_body ops self current_node r0 spacing offsets start_x child of
        Inl e \<Rightarrow> Inl e
      | Inr (self', start_x') \<Rightarrow>
          dendro_loop ops self' current_node r0 spacing offsets start_x' rest)"
| "dendro_body ops self current_node r0 spacing offsets start_x child =
     (let ln = segment_length ops (node_value current_node, node_value child);
          r1 = fl_mul ops (COLS_R (node_value child)) (scale self);
          terminations = n_terminations child;
          new_offsets = update_offsets ops start_x spacing terminations offsets ln
      in case store_rectangle self
                (vertical_segment ops offsets new_offsets spacing (r0, r1)) of
           Inl e \<Rightarrow> Inl e
         | Inr self1 \<Rightarrow>
             (let self2 =
                    (if fl_add ops (fl_add ops (snd offsets) (fl_mul ops (snd spacing) 2)) ln
                          > snd (max_dims self1)
                     then self1\<lparr>max_dims :=
                            (fst (max_dims self1),
                             fl_add ops (fl_add ops (snd offsets) (fl_mul ops (snd spacing) 2))
                               ln)\<rparr>
                     else self1)
              in case generate_dendro ops self2 child spacing new_offsets of
                   Inl e \<Rightarrow> Inl e
                 | Inr self3 \<Rightarrow>
                     (let start_x' = fl_add ops start_x
                                       (fl_mul ops (real terminations) (fst spacing))
                      in if fst offsets \<noteq> fst new_offsets
                         then (case store_rectangle self3
                                      (horizontal_segment ops offsets new_offsets spacing 0) of
                                 Inl e \<Rightarrow> Inl e
                               | Inr self4 \<Rightarrow> Inr (self4, start_x'))
                         else Inr (self3, start_x'))))"
  by pat_completeness auto

termination
proof (relation "measure (\<lambda>a. case a of
                    Inl (ops, self, node, spacing, offsets) \<Rightarrow> 2 * size node + 1
                  | Inr (Inl (ops, self, node, r0, spacing, offsets, start_x, cs)) \<Rightarrow>
                      2 * size_list size cs + 1
                  | Inr (Inr (ops, self, node, r0, spacing, offsets, start_x, child)) \<Rightarrow>
                      2 * size child + 2)")
  show "wf (measure (\<lambda>a. case a of
                    Inl (ops, self, node, spacing, offsets) \<Rightarrow> 2 * size node + 1
                  | Inr (Inl (ops, self, node, r0, spacing, offsets, start_x, cs)) \<Rightarrow>
                      2 * size_list size cs + 1
                  | Inr (Inr (ops, self, node, r0, spacing, offsets, start_x, child)) \<Rightarrow>
                      2 * size child + 2))"
    by simp
next
  fix ops :: float_ops and self :: dendrogram and current_node :: "row tree"
    and spacing offsets :: vertex
    and x :: "(real \<times> real) \<times> real" and md :: "real \<times> real" and start_x :: real
  show "(Inr (Inl (ops, self\<lparr>max_dims := md\<rparr>, current_node,
                   fl_mul ops (COLS_R (node_value current_node)) (scale self), spacing, offsets,
                   start_x, children current_node)),
         Inl (ops, self, current_node, spacing, offsets))
        \<in> measure (\<lambda>a. case a of
                    Inl (ops, self, node, spacing, offsets) \<Rightarrow> 2 * size node + 1
                  | Inr (Inl (ops, self, node, r0, spacing, offsets, start_x, cs)) \<Rightarrow>
                      2 * size_list size cs + 1
                  | Inr (Inr (ops, self, node, r0, spacing, offsets, start_x, child)) \<Rightarrow>
                      2 * size child + 2)"
    by (cases current_node) simp
qed simp_all

declare generate_dendro.simps [simp del] dendro_body.simps [simp del]

text \<open>
  \<^verbatim>\<open>generate\<close>. For a \<^verbatim>\<open>Tree\<close> the whole buffer becomes the only group; otherwise the
  \<^verbatim>\<open>neurites\<close> of the object are laid out one after the other, and the slice
  \<^verbatim>\<open>self._rectangles[n_previous: self._n]\<close> of each is recorded. An object without a
  \<^verbatim>\<open>neurites\<close> attribute raises AttributeError there.
\<close>

fun generate_neurites ::
  "float_ops \<Rightarrow> dendrogram \<Rightarrow> vertex \<Rightarrow> vertex \<Rightarrow> nat \<Rightarrow> row tree list \<Rightarrow> dendrogram raising"
where
  "generate_neurites ops self spacing offsets n_previous [] = Inr self"
| "generate_neurites ops self spacing offsets n_previous (neurite # rest) =
     (case generate_dendro ops self neurite spacing offsets of
        Inl e \<Rightarrow> Inl e
      | Inr self1 \<Rightarrow>
          generate_neurites ops
            (self1\<lparr>trees := trees self1 @
                        [take (n self1 - n_previous) (drop n_previous (rectangles self1))],
                    dims := dims self1 @ [max_dims self1],
                    max_dims := (0, 0)\<rparr>)
            spacing offsets (n self1) rest)"

definition generate :: "float_ops \<Rightarrow> dendrogram \<Rightarrow> dendrogram raising" where
  "generate ops self =
     (let spacing = (40, 0); offsets = (0, 0)
      in case obj self of
           TreeObj t \<Rightarrow>
             (case generate_dendro ops self t spacing offsets of
                Inl e \<Rightarrow> Inl e
              | Inr self1 \<Rightarrow> Inr (self1\<lparr>trees := [rectangles self1]\<rparr>))
         | NeuronObj neurites \<Rightarrow> generate_neurites ops self spacing offsets 0 neurites
         | OtherObj None \<Rightarrow> Inl (AttributeError, self)
         | OtherObj (Some neurites) \<Rightarrow> generate_neurites ops self spacing offsets 0 neurites)"

section \<open>Morphology checks: traversal\<close>

text \<open>
  Modelled from the spec: \<^verbatim>\<open>iter_nodes\<close> of the tree class is not among the source
  files at hand; it walks every node depth-first (pre-order). Each node is listed with the
  value of its parent (\<^verbatim>\<open>node.parent.value\<close>), \<open>None\<close> for the root.
\<close>

fun iter_nodes :: "'a option \<Rightarrow> 'a tree \<Rightarrow> ('a option \<times> 'a) list" where
  "iter_nodes parent (Tree v cs) = (parent, v) # concat (map (iter_nodes (Some v)) cs)"

definition sections :: "'a tree \<Rightarrow> 'a list" where
  "sections neurite = map snd (iter_nodes None neurite)"

section \<open>Morphology checks: monotonicity\<close>

text \<open>
  The inner loop \<^verbatim>\<open>for point_id in xrange(len(sec) - 1)\<close> of \<^verbatim>\<open>is_monotonic\<close>; it returns
  \<open>False\<close> when the loop executes \<^verbatim>\<open>return False\<close>.
\<close>

fun points_loop :: "float_ops \<Rightarrow> real \<Rightarrow> row list \<Rightarrow> nat list \<Rightarrow> bool" where
  "points_loop ops tol sec [] = True"
| "points_loop ops tol sec (point_id # rest) =
     (if COLS_R (sec ! (point_id + 1)) > fl_add ops (COLS_R (sec ! point_id)) tol then False
      else points_loop ops tol sec rest)"

text \<open>
  The loop over the nodes. \<^verbatim>\<open>sec[0]\<close> and \<^verbatim>\<open>node.parent.value[-1]\<close> raise IndexError on an
  empty section.
\<close>

fun nodes_loop ::
  "float_ops \<Rightarrow> real \<Rightarrow> (row list option \<times> row list) list \<Rightarrow> py_error + bool" where
  "nodes_loop ops tol [] = Inr True"
| "nodes_loop ops tol ((parent, sec) # rest) =
     (if \<not> points_loop ops tol sec [0..<length sec - 1] then Inr False
      else case parent of
             None \<Rightarrow> nodes_loop ops tol rest
           | Some parent_value \<Rightarrow>
               (if sec = [] \<or> parent_value = [] then Inl IndexError
                else if COLS_R (sec ! 0) > fl_add ops (COLS_R (last parent_value)) tol
                     then Inr False
                else nodes_loop ops tol rest))"

definition is_monotonic :: "float_ops \<Rightarrow> row list tree \<Rightarrow> real \<Rightarrow> py_error + bool" where
  "is_monotonic ops neurite tol = nodes_loop ops tol (iter_nodes None neurite)"

section \<open>Morphology checks: flatness\<close>

definition coords :: "row \<Rightarrow> vec3" where
  "coords node = (COLS_X node, COLS_Y node, COLS_Z node)"

text \<open>
  \<^verbatim>\<open>a / b < tol\<close> on numpy floats. Division by zero raises nothing: \<^verbatim>\<open>0 / 0\<close> is nan and
  \<^verbatim>\<open>a / 0\<close> is infinite with the sign of \<^verbatim>\<open>a\<close>; nan and \<open>+\<infinity>\<close> are below no tolerance,
  \<open>-\<infinity>\<close> is below every one. Otherwise the quotient is rounded.
\<close>

definition ratio_less :: "float_ops \<Rightarrow> real \<Rightarrow> real \<Rightarrow> real \<Rightarrow> bool" where
  "ratio_less ops a b tol = (if b = 0 then a < 0 else fl_div ops a b < tol)"

text \<open>
  \<^verbatim>\<open>principal_direction_extent\<close> (of \<^verbatim>\<open>neurom.analysis.morphmath\<close>) and the \<^verbatim>\<open>points\<close>
  attribute of the neurite are not among the source files at hand: both are parameters.
  Indexing the sorted extents raises IndexError when there are fewer than two.
\<close>

definition is_flat ::
  "float_ops \<Rightarrow> (vec3 list \<Rightarrow> real list) \<Rightarrow> ('n \<Rightarrow> row list) \<Rightarrow> 'n \<Rightarrow> real \<Rightarrow> string
     \<Rightarrow> py_error + bool" where
  "is_flat ops principal_direction_extent points neurite tol method =
     (let ext = principal_direction_extent (map coords (points neurite))
      in if method = ''ratio''
         then (let sorted_ext = sort ext
               in if length sorted_ext < 2 then Inl IndexError
                  else Inr (ratio_less ops (sorted_ext ! 0) (sorted_ext ! 1) tol))
         else Inr (list_ex (\<lambda>e. e < tol) ext))"

section \<open>Morphology checks: back-tracking\<close>

text \<open>The local functions of \<^verbatim>\<open>is_back_tracking\<close>.\<close>

definition pair :: "'a list \<Rightarrow> ('a \<times> 'a) list" where
  "pair segs = zip segs (tl segs)"

definition max_radius :: "segment \<Rightarrow> real" where
  "max_radius seg = max (COLS_R (fst seg)) (COLS_R (snd seg))"

definition is_not_zero_seg :: "float_ops \<Rightarrow> segment \<Rightarrow> bool" where
  "is_not_zero_seg ops seg \<longleftrightarrow> \<not> np_allclose ops (coords (fst seg)) (coords (snd seg))"

definition is_in_the_same_verse :: "float_ops \<Rightarrow> segment \<Rightarrow> segment \<Rightarrow> bool" where
  "is_in_the_same_verse ops seg1 seg2 =
     (let v1 = vsub ops (coords (snd seg2)) (coords (fst seg2));
          v2 = vsub ops (coords (snd seg1)) (coords (fst seg1))
      in np_dot ops v1 v2 \<ge> 0)"

definition is_seg2_within_seg1_radius :: "float_ops \<Rightarrow> real \<Rightarrow> segment \<Rightarrow> segment \<Rightarrow> bool" where
  "is_seg2_within_seg1_radius ops d seg1 seg2 \<longleftrightarrow>
     d \<le> fl_add ops (max_radius seg1) (max_radius seg2)"

definition is_seg1_overlapping_with_seg2 :: "float_ops \<Rightarrow> segment \<Rightarrow> segment \<Rightarrow> bool" where
  "is_seg1_overlapping_with_seg2 ops seg1 seg2 =
     (let s1 = coords (fst seg2);
          s2 = coords (snd seg2);
          C = vscale ops (1 / 2) (vadd ops s1 s2);
          P = coords (snd seg1);
          CP = vsub ops P C;
          S1S2 = vsub ops s2 s1;
          prj = vector_projection ops CP S1S2
      in if \<not> is_seg2_within_seg1_radius ops (np_linalg_norm ops (vsub ops CP prj)) seg1 seg2
         then False
         else np_linalg_norm ops prj < fl_mul ops literal_0_55 (np_linalg_norm ops S1S2))"

definition is_inside_cylinder :: "float_ops \<Rightarrow> segment \<Rightarrow> segment \<Rightarrow> bool" where
  "is_inside_cylinder ops seg1 seg2 \<longleftrightarrow>
     \<not> is_in_the_same_verse ops seg1 seg2 \<and> is_seg1_overlapping_with_seg2 ops seg1 seg2"

text \<open>
  The three nested loops of \<^verbatim>\<open>is_back_tracking\<close>, innermost first; each returns \<open>True\<close>
  when the source executes \<^verbatim>\<open>return True\<close> inside it.
\<close>

fun seg2_loop :: "float_ops \<Rightarrow> segment \<Rightarrow> segment list \<Rightarrow> bool" where
  "seg2_loop ops seg1 [] = False"
| "seg2_loop ops seg1 (seg2 # rest) =
     (if is_inside_cylinder ops seg1 seg2 then True else seg2_loop ops seg1 rest)"

fun seg1_loop :: "float_ops \<Rightarrow> segment list \<Rightarrow> (nat \<times> segment) list \<Rightarrow> bool" where
  "seg1_loop ops segment_pairs [] = False"
| "seg1_loop ops segment_pairs ((i, seg1) # rest) =
     (if seg2_loop ops seg1 (take (i + 1) segment_pairs) then True
      else seg1_loop ops segment_pairs rest)"

fun snode_loop :: "float_ops \<Rightarrow> row list list \<Rightarrow> bool" where
  "snode_loop ops [] = False"
| "snode_loop ops (snode_value # rest) =
     (let segment_pairs = filter (is_not_zero_seg ops) (pair snode_value)
      in if seg1_loop ops segment_pairs (enumerate 0 (tl segment_pairs)) then True
         else snode_loop ops rest)"

definition is_back_tracking :: "float_ops \<Rightarrow> row list tree \<Rightarrow> bool" where
  "is_back_tracking ops neurite =
     snode_loop ops (filter (\<lambda>snode_value. length snode_value > 2) (sections neurite))"

section \<open>Morphology checks: notions used in the statements\<close>

text \<open>
  The violation of the monotonicity check at a node (listed with the value of its parent):
  two consecutive samples of the section whose radius exceeds the sum of the previous
  radius and the tolerance, or a parent whose last radius plus the tolerance is exceeded by
  the first radius of the section. The sums are the rounded sums of the program.
\<close>

definition violates :: "float_ops \<Rightarrow> real \<Rightarrow> row list option \<times> row list \<Rightarrow> bool" where
  "violates ops tol pn =
     ((\<exists>i. i + 1 < length (snd pn)
           \<and> COLS_R (snd pn ! (i + 1)) > fl_add ops (COLS_R (snd pn ! i)) tol)
      \<or> (\<exists>parent_value. fst pn = Some parent_value
           \<and> COLS_R (snd pn ! 0) > fl_add ops (COLS_R (last parent_value)) tol))"

text \<open>
  The overlap condition in the words of the specification, for a later segment \<open>seg_i\<close>
  and an earlier segment \<open>seg_j\<close>: with \<open>C\<close> the midpoint of \<open>seg_j\<close>, \<open>P\<close> the endpoint of
  \<open>seg_i\<close>, \<open>CP = P - C\<close> and \<open>prj\<close> the projection of \<open>CP\<close> onto the direction of \<open>seg_j\<close>:
  the orthogonal clearance is at most the sum of the two maximal radii, the projection is
  shorter than 0.55 times the length of \<open>seg_j\<close>, and the two directions do not have a
  non-negative dot product. Sums, products, norms and the projection are those of the
  program's arithmetic.
\<close>

definition direction :: "float_ops \<Rightarrow> segment \<Rightarrow> vec3" where
  "direction ops seg = vsub ops (coords (snd seg)) (coords (fst seg))"

definition spec_overlap :: "float_ops \<Rightarrow> segment \<Rightarrow> segment \<Rightarrow> bool" where
  "spec_overlap ops seg_i seg_j =
     (let C = vscale ops (1 / 2) (vadd ops (coords (fst seg_j)) (coords (snd seg_j)));
          P = coords (snd seg_i);
          CP = vsub ops P C;
          prj = vector_projection ops CP (direction ops seg_j)
      in np_linalg_norm ops (vsub ops CP prj) \<le> fl_add ops (max_radius seg_i) (max_radius seg_j)
         \<and> np_linalg_norm ops prj
             < fl_mul ops literal_0_55 (np_linalg_norm ops (direction ops seg_j))
         \<and> \<not> (np_dot ops (direction ops seg_j) (direction ops seg_i) \<ge> 0))"

text \<open>
  A section made of colinear segments of the same direction: every segment is a
  non-negative multiple of one direction vector.
\<close>

definition colinear_same_direction :: "row list \<Rightarrow> bool" where
  "colinear_same_direction sec \<longleftrightarrow>
     (\<exists>d. \<forall>seg \<in> set (pair sec). \<exists>c \<ge> 0. direction exact_ops seg = vscale exact_ops c d)"

section \<open>Dendrogram: notions used in the statements\<close>

text \<open>The \<^verbatim>\<open>new_offsets\<close> that the loop body computes for a child.\<close>

definition child_offsets ::
  "float_ops \<Rightarrow> real \<Rightarrow> vertex \<Rightarrow> vertex \<Rightarrow> row tree \<Rightarrow> row tree \<Rightarrow> vertex" where
  "child_offsets ops start_x spacing offsets current_node child =
     update_offsets ops start_x spacing (n_terminations child) offsets
       (segment_length ops (node_value current_node, node_value child))"

text \<open>The state of the object after a call, whether it returned or raised.\<close>

definition outcome_state :: "dendrogram raising \<Rightarrow> dendrogram" where
  "outcome_state r = (case r of Inl (e, s) \<Rightarrow> s | Inr s \<Rightarrow> s)"

text \<open>
  The polygons that a run of \<^verbatim>\<open>_generate_dendro\<close> stores, in the order of the stores, each
  with the edge it belongs to: the parent node and the offsets the parent is laid out at,
  the child and the \<^verbatim>\<open>new_offsets\<close> of the child. One execution of the loop body
  contributes the vertical polygon of its edge, then the polygons of the child's subtree,
  then the horizontal polygon if the two x-offsets differ; \<^verbatim>\<open>start_x\<close> advances as in the
  loop. (The start position returned by \<^verbatim>\<open>_spacingx\<close> does not depend on \<^verbatim>\<open>max_dims\<close>.)
  \<open>body_emissions\<close> is the contribution of one execution of the loop body.
\<close>

datatype emission =
    Vertical "row tree" vertex "row tree" vertex
  | Horizontal "row tree" vertex "row tree" vertex

function emissions :: "float_ops \<Rightarrow> row tree \<Rightarrow> vertex \<Rightarrow> vertex \<Rightarrow> emission list"
and emissions_loop ::
  "float_ops \<Rightarrow> row tree \<Rightarrow> vertex \<Rightarrow> vertex \<Rightarrow> real \<Rightarrow> row tree list \<Rightarrow> emission list"
where
  "emissions ops current_node spacing offsets =
     emissions_loop ops current_node spacing offsets
       (snd (spacingx ops current_node (0, 0) (fst offsets) (fst spacing)))
       (children current_node)"
| "emissions_loop ops current_node spacing offsets start_x [] = []"
| "emissions_loop ops current_node spacing offsets start_x (child # rest) =
     Vertical current_node offsets child
       (child_offsets ops start_x spacing offsets current_node child)
     # emissions ops child spacing (child_offsets ops start_x spacing offsets current_node child)
     @ (if fst offsets \<noteq> fst (child_offsets ops start_x spacing offsets current_node child)
        then [Horizontal current_node offsets child
                (child_offsets ops start_x spacing offsets current_node child)]
        else [])
     @ emissions_loop ops current_node spacing offsets
         (fl_add ops start_x (fl_mul ops (real (n_terminations child)) (fst spacing))) rest"
  by pat_completeness auto

termination
proof (relation "measure (\<lambda>a. case a of
                    Inl (ops, node, spacing, offsets) \<Rightarrow> 2 * size node
                  | Inr (ops, node, spacing, offsets, start_x, cs) \<Rightarrow>
                      2 * size_list size cs + 1)")
  show "wf (measure (\<lambda>a. case a of
                    Inl (ops, node, spacing, offsets) \<Rightarrow> 2 * size node
                  | Inr (ops, node, spacing, offsets, start_x, cs) \<Rightarrow>
                      2 * size_list size cs + 1))"
    by simp
next
  fix ops :: float_ops and current_node :: "row tree" and spacing offsets :: vertex
  show "(Inr (ops, current_node, spacing, offsets,
              snd (spacingx ops current_node (0, 0) (fst offsets) (fst spacing)),
              children current_node),
         Inl (ops, current_node, spacing, offsets))
        \<in> measure (\<lambda>a. case a of
                    Inl (ops, node, spacing, offsets) \<Rightarrow> 2 * size node
                  | Inr (ops, node, spacing, offsets, start_x, cs) \<Rightarrow>
                      2 * size_list size cs + 1)"
    by (cases current_node) simp
qed simp_all

declare emissions.simps [simp del]

definition body_emissions ::
  "float_ops \<Rightarrow> row tree \<Rightarrow> vertex \<Rightarrow> vertex \<Rightarrow> real \<Rightarrow> row tree \<Rightarrow> emission list" where
  "body_emissions ops current_node spacing offsets start_x child =
     Vertical current_node offsets child
       (child_offsets ops start_x spacing offsets current_node child)
     # emissions ops child spacing (child_offsets ops start_x spacing offsets current_node child)
     @ (if fst offsets \<noteq> fst (child_offsets ops start_x spacing offsets current_node child)
        then [Horizontal current_node offsets child
                (child_offsets ops start_x spacing offsets current_node child)]
        else [])"

fun polygon_of :: "float_ops \<Rightarrow> real \<Rightarrow> vertex \<Rightarrow> emission \<Rightarrow> polygon" where
  "polygon_of ops sc spacing (Vertical p po c co) =
     vertical_segment ops po co spacing
       (fl_mul ops (COLS_R (node_value p)) sc, fl_mul ops (COLS_R (node_value c)) sc)"
| "polygon_of ops sc spacing (Horizontal p po c co) = horizontal_segment ops po co spacing 0"

fun is_vertical :: "emission \<Rightarrow> bool" where
  "is_vertical (Vertical p po c co) = True"
| "is_vertical (Horizontal p po c co) = False"

text \<open>The edge (parent, child) of an emission, and the edges of a tree in pre-order.\<close>

fun edge_of :: "emission \<Rightarrow> row tree \<times> row tree" where
  "edge_of (Vertical p po c co) = (p, c)"
| "edge_of (Horizontal p po c co) = (p, c)"

fun tree_edges :: "'a tree \<Rightarrow> ('a tree \<times> 'a tree) list" where
  "tree_edges (Tree v cs) = concat (map (\<lambda>c. (Tree v cs, c) # tree_edges c) cs)"

text \<open>
  The value of \<^verbatim>\<open>start_x\<close> when the loop reaches the child of index \<open>k\<close>: the start
  position returned by \<^verbatim>\<open>_spacingx\<close>, after \<^verbatim>\<open>start_x += terminations * spacing[0]\<close> for every
  earlier child; and the \<^verbatim>\<open>new_offsets\<close> computed for the child of index \<open>k\<close>.
\<close>

definition child_start_x :: "float_ops \<Rightarrow> row tree \<Rightarrow> vertex \<Rightarrow> vertex \<Rightarrow> nat \<Rightarrow> real" where
  "child_start_x ops current_node spacing offsets k =
     foldl (\<lambda>start_x child.
              fl_add ops start_x (fl_mul ops (real (n_terminations child)) (fst spacing)))
       (snd (spacingx ops current_node (0, 0) (fst offsets) (fst spacing)))
       (take k (children current_node))"

definition assigned_offsets :: "float_ops \<Rightarrow> row tree \<Rightarrow> vertex \<Rightarrow> vertex \<Rightarrow> nat \<Rightarrow> vertex" where
  "assigned_offsets ops current_node spacing offsets k =
     child_offsets ops (child_start_x ops current_node spacing offsets k) spacing offsets
       current_node (children current_node ! k)"

text \<open>
  The position, among the polygons of a run on \<open>current_node\<close>, of the vertical polygon of
  its child of index \<open>k\<close>: the polygons of the earlier children and their subtrees come
  before it.
\<close>

definition child_index :: "float_ops \<Rightarrow> row tree \<Rightarrow> vertex \<Rightarrow> vertex \<Rightarrow> nat \<Rightarrow> nat" where
  "child_index ops current_node spacing offsets k =
     length (emissions_loop ops current_node spacing offsets
               (snd (spacingx ops current_node (0, 0) (fst offsets) (fst spacing)))
               (take k (children current_node)))"

text \<open>Trees in which every node has at most two children.\<close>

fun binary :: "'a tree \<Rightarrow> bool" where
  "binary (Tree v cs) \<longleftrightarrow> length cs \<le> 2 \<and> (\<forall>c \<in> set cs. binary c)"

text \<open>
  The effect of storing the polygons \<open>ps\<close> one after the other from the write index of \<open>s\<close>,
  up to the end of the buffer: \<open>s'\<close> has them at these indices, the rest of the buffer,
  its length and the scale are those of \<open>s\<close>, and the write index has advanced.
\<close>

definition wrote :: "dendrogram \<Rightarrow> polygon list \<Rightarrow> dendrogram \<Rightarrow> bool" where
  "wrote s ps s' \<longleftrightarrow>
     length (rectangles s') = length (rectangles s) \<and> scale s' = scale s
     \<and> n s' = min (n s + length ps) (length (rectangles s))
     \<and> (\<forall>i < length (rectangles s).
           rectangles s' ! i
             = (if n s \<le> i \<and> i < n s + length ps then ps ! (i - n s) else rectangles s ! i))"

text \<open>
  A call that stores the polygons \<open>ps\<close> from the state \<open>s\<close>: it returns when they all fit
  and raises IndexError otherwise, and in both cases the polygons that fit are stored.
\<close>

definition stores :: "dendrogram \<Rightarrow> polygon list \<Rightarrow> dendrogram raising \<Rightarrow> bool" where
  "stores s ps r \<longleftrightarrow>
     wrote s ps (outcome_state r)
     \<and> (case r of
          Inr s' \<Rightarrow> n s + length ps \<le> length (rectangles s)
        | Inl (e, s') \<Rightarrow> e = IndexError \<and> length (rectangles s) < n s + length ps)"

section \<open>Concrete trees used in the evaluations\<close>

definition sample :: "real \<Rightarrow> real \<Rightarrow> real \<Rightarrow> real \<Rightarrow> row" where
  "sample a b c d = \<lparr>COLS_X = a, COLS_Y = b, COLS_Z = c, COLS_R = d\<rparr>"

text \<open>
  A root with three children: two leaves and a third child that bifurcates into two
  leaves (termination counts 1, 1 and 2).
\<close>

definition trifurcation_tree :: "row tree" where
  "trifurcation_tree =
     Tree (sample 0 0 0 1)
       [Tree (sample 1 0 0 1) [],
        Tree (sample 0 1 0 1) [],
        Tree (sample 0 0 1 1) [Tree (sample 0 0 2 1) [], Tree (sample 0 0 3 1) []]]"

text \<open>A root of radius 2 with two leaf children of radius 1.\<close>

definition bifurcation_tree :: "row tree" where
  "bifurcation_tree =
     Tree (sample 0 0 0 2) [Tree (sample 1 0 0 1) [], Tree (sample 0 1 0 1) []]"

text \<open>The same root and first child; the second child bifurcates into two leaves.\<close>

definition uneven_tree :: "row tree" where
  "uneven_tree =
     Tree (sample 0 0 0 2)
       [Tree (sample 1 0 0 1) [],
        Tree (sample 0 1 0 1) [Tree (sample 0 2 0 1) [], Tree (sample 0 3 0 1) []]]"

text \<open>A root with a single leaf child.\<close>

definition chain_tree :: "row tree" where
  "chain_tree = Tree (sample 0 0 0 2) [Tree (sample 1 0 0 1) []]"

text \<open>The bifurcation tree with a first child that continues into one leaf.\<close>

definition sibling_variant_tree :: "row tree" where
  "sibling_variant_tree =
     Tree (sample 0 0 0 2)
       [Tree (sample 1 0 0 1) [Tree (sample 2 0 0 1) []],
        Tree (sample 0 1 0 1) []]"

text \<open>A root section with radii 5, 4 and a child section with radii 4, 3, 2, 1.\<close>

definition tapering_tree :: "row list tree" where
  "tapering_tree =
     Tree [sample 0 0 0 5, sample 1 0 0 4]
       [Tree [sample 1 0 0 4, sample 2 0 0 3, sample 3 0 0 2, sample 4 0 0 1] []]"

text \<open>The same tree with the radius 6 in place of 3 in the child section.\<close>

definition bulging_tree :: "row list tree" where
  "bulging_tree =
     Tree [sample 0 0 0 5, sample 1 0 0 4]
       [Tree [sample 1 0 0 4, sample 2 0 0 6, sample 3 0 0 2, sample 4 0 0 1] []]"

text \<open>
  A single section whose second segment turns back by one millionth: its endpoints are
  close in the sense of \<^verbatim>\<open>np.allclose\<close>, its length is not zero.
\<close>

definition near_zero_reversal :: "row list tree" where
  "near_zero_reversal =
     Tree [sample 0 0 0 1, sample 1 0 0 1, sample (999999 / 1000000) 0 0 1] []"

text \<open>A single section whose second segment turns back onto the middle of the first.\<close>

definition reversal_tree :: "row list tree" where
  "reversal_tree = Tree [sample 0 0 0 1, sample 2 0 0 1, sample 1 0 0 1] []"

text \<open>A single section of three colinear segments of the same direction, with large radii.\<close>

definition colinear_tree :: "row list tree" where
  "colinear_tree =
     Tree [sample 0 0 0 5, sample 1 0 0 5, sample 2 0 0 5, sample 3 0 0 5] []"

text \<open>
  A single section whose second segment turns back over the whole of the first and beyond:
  the projection has length 55 and the first segment length 100.
\<close>

definition long_reversal_tree :: "row list tree" where
  "long_reversal_tree = Tree [sample 0 0 0 1, sample 100 0 0 1, sample (- 5) 0 0 1] []"

text \<open>A single section with the radii \<^verbatim>\<open>0.3\<close> and \<^verbatim>\<open>0.4\<close>.\<close>

definition rounding_tree :: "row list tree" where
  "rounding_tree = Tree [sample 0 0 0 literal_0_3, sample 1 0 0 literal_0_4] []"

section \<open>Dendrogram: results\<close>

lemma exact_ops_simps:
  "fl_add exact_ops = (+)" "fl_sub exact_ops = (-)" "fl_mul exact_ops = (*)"
  "fl_div exact_ops = (/)" "segment_length exact_ops = euclidean_length"
  "vector_projection exact_ops = projection" "np_dot exact_ops = dot"
  "np_linalg_norm exact_ops v = sqrt (dot v v)" "np_allclose exact_ops = allclose"
  by (simp_all add: exact_ops_def)

lemmas dendro_eval_simps =
  sample_def generate_def Dendrogram_init_def total_rectangles_def spacingx_def
  update_offsets_def store_rectangle_def euclidean_length_def Let_def vertical_segment_def
  horizontal_segment_def exact_ops_simps(1-5) child_offsets_def

lemmas dendro_run_simps = dendro_eval_simps generate_dendro.simps dendro_body.simps

lemma init_simps:
  "n (Dendrogram_init ob) = 0" "scale (Dendrogram_init ob) = 1"
  "length (rectangles (Dendrogram_init ob)) = n_rectangles ob"
  by (simp_all add: Dendrogram_init_def)

text \<open>
  C1 (fails on the code). The buffer of the trifurcation tree is allocated with
  \<open>n_segments + 2 * n_bifurcations = 5 + 2 * 2 = 9\<close> polygons, but the fill pass stores a
  horizontal connector for each of the three children of the root (their x-offsets
  \<open>-60\<close>, \<open>-20\<close> and \<open>40\<close> all differ from the root's \<open>0\<close>), ten polygons in all: the
  tenth store is out of range and \<^verbatim>\<open>generate\<close> raises IndexError with the write index
  at 9, instead of returning with the write index at the buffer length. Every number of
  this run is a small integer, on which the arithmetic of doubles does not round.
\<close>

theorem C1_generate_overflows_on_trifurcation:
  "length (rectangles (Dendrogram_init (TreeObj trifurcation_tree))) = 9
   \<and> length (rectangles (Dendrogram_init (TreeObj trifurcation_tree)))
       = n_segments trifurcation_tree + 2 * n_bifurcations trifurcation_tree
   \<and> length (emissions exact_ops trifurcation_tree (40, 0) (0, 0)) = 10
   \<and> (case generate exact_ops (Dendrogram_init (TreeObj trifurcation_tree)) of
         Inl (e, s) \<Rightarrow> e = IndexError \<and> n s = 9 \<and> length (rectangles s) = 9
       | Inr s \<Rightarrow> False)"
proof -
  have 1: "length (rectangles (Dendrogram_init (TreeObj trifurcation_tree))) = 9"
    "length (rectangles (Dendrogram_init (TreeObj trifurcation_tree)))
       = n_segments trifurcation_tree + 2 * n_bifurcations trifurcation_tree"
    by (simp_all add: trifurcation_tree_def dendro_eval_simps)
  have 2: "length (emissions exact_ops trifurcation_tree (40, 0) (0, 0)) = 10"
    by (simp add: trifurcation_tree_def emissions.simps dendro_eval_simps)
  have 3: "case generate exact_ops (Dendrogram_init (TreeObj trifurcation_tree)) of
         Inl (e, s) \<Rightarrow> e = IndexError \<and> n s = 9 \<and> length (rectangles s) = 9
       | Inr s \<Rightarrow> False"
    by (simp add: trifurcation_tree_def dendro_run_simps)
  from 1 2 3 show ?thesis by simp
qed

text \<open>
  C10. For an object that is neither a \<^verbatim>\<open>Tree\<close> nor a \<^verbatim>\<open>Neuron\<close> the polygon count is 0 and
  the constructor returns (it raises nothing) a dendrogram whose polygon buffer is empty.
\<close>

theorem C10_other_object_empty_buffer:
  "n_rectangles (OtherObj a) = 0
   \<and> rectangles (Dendrogram_init (OtherObj a)) = []
   \<and> length (rectangles (Dendrogram_init (OtherObj a))) = 0"
  by (simp add: Dendrogram_init_def)

subsection \<open>Storing polygons in the buffer\<close>

lemma outcome_state_simps [simp]:
  "outcome_state (Inl (e, s)) = s" "outcome_state (Inr s) = s"
  by (simp_all add: outcome_state_def)

lemma wrote_nil: "n s \<le> length (rectangles s) \<Longrightarrow> wrote s [] s"
  by (auto simp: wrote_def)

lemma wrote_overflow:
  assumes "wrote s ps s1" "length (rectangles s) \<le> n s + length ps"
  shows "wrote s (ps @ qs) s1"
proof -
  have 1: "min (n s + length (ps @ qs)) (length (rectangles s))
             = min (n s + length ps) (length (rectangles s))"
    using assms(2) by simp
  have 2: "(if n s \<le> i \<and> i < n s + length (ps @ qs) then (ps @ qs) ! (i - n s)
            else rectangles s ! i)
           = (if n s \<le> i \<and> i < n s + length ps then ps ! (i - n s) else rectangles s ! i)"
    if "i < length (rectangles s)" for i
    using that assms(2) by (auto simp: nth_append)
  from assms(1) show ?thesis
    unfolding wrote_def 1 using 2 by simp
qed

lemma stores_store:
  "n s \<le> length (rectangles s) \<Longrightarrow> stores s [p] (store_rectangle s p)"
  by (auto simp: stores_def store_rectangle_def wrote_def min_def nth_list_update
      le_less_Suc_eq)

lemma stores_Inl_append: "stores s ps (Inl x) \<Longrightarrow> stores s (ps @ qs) (Inl x)"
  by (cases x) (auto simp: stores_def intro: wrote_overflow)

lemma stores_bind: "stores s ps (Inr s1) \<Longrightarrow> stores s1 qs r \<Longrightarrow> stores s (ps @ qs) r"
  unfolding stores_def
  by (auto simp: wrote_def nth_append min_def split: sum.splits)

lemma stores_inv:
  "stores s ps r \<Longrightarrow> n (outcome_state r) \<le> length (rectangles (outcome_state r))"
  by (simp add: stores_def wrote_def)

lemma stores_scale: "stores s ps r \<Longrightarrow> scale (outcome_state r) = scale s"
  by (simp add: stores_def wrote_def)

lemma stores_max_dims: "stores s ps (Inr s1) \<Longrightarrow> stores s ps (Inr (s1\<lparr>max_dims := md\<rparr>))"
  by (simp add: stores_def wrote_def)

lemma stores_max_dims_pre: "stores (s\<lparr>max_dims := md\<rparr>) ps r \<Longrightarrow> stores s ps r"
  by (auto simp: stores_def wrote_def split: sum.splits)

subsection \<open>A run stores the polygons of its trace\<close>

text \<open>
  Whatever the arithmetic, and whether the run returns or raises: a call of
  \<^verbatim>\<open>_generate_dendro\<close> on a state whose write index is within the buffer stores the polygons
  of \<open>emissions\<close>, in this order, from the write index on, as far as the buffer goes; it
  returns when they all fit and raises IndexError otherwise.
\<close>

lemma emissions_loop_Cons:
  "emissions_loop ops node sp offs sx (c # cs)
     = body_emissions ops node sp offs sx c
       @ emissions_loop ops node sp offs
           (fl_add ops sx (fl_mul ops (real (n_terminations c)) (fst sp))) cs"
  by (simp add: body_emissions_def)

lemma snd_spacingx:
  "snd (spacingx ops node md x xs)
     = fl_sub ops x (fl_div ops (fl_mul ops (real (n_terminations node)) xs) 2)"
  by (simp add: spacingx_def Let_def)

lemma dendro_body_stores:
  assumes inv: "n self \<le> length (rectangles self)"
    and IH: "\<And>s co. n s \<le> length (rectangles s) \<Longrightarrow>
               stores s (map (polygon_of ops (scale s) sp) (emissions ops child sp co))
                 (generate_dendro ops s child sp co)"
    and r0: "r0 = fl_mul ops (COLS_R (node_value node)) (scale self)"
  shows "case dendro_body ops self node r0 sp offs sx child of
           Inl x \<Rightarrow>
             stores self (map (polygon_of ops (scale self) sp)
                            (body_emissions ops node sp offs sx child)) (Inl x)
         | Inr (s', x) \<Rightarrow>
             stores self (map (polygon_of ops (scale self) sp)
                            (body_emissions ops node sp offs sx child)) (Inr s')
             \<and> x = fl_add ops sx (fl_mul ops (real (n_terminations child)) (fst sp))"
proof -
  let ?co = "child_offsets ops sx sp offs node child"
  let ?V = "vertical_segment ops offs ?co sp
              (r0, fl_mul ops (COLS_R (node_value child)) (scale self))"
  let ?E = "map (polygon_of ops (scale self) sp) (emissions ops child sp ?co)"
  let ?H = "horizontal_segment ops offs ?co sp 0"
  let ?T = "if fst offs \<noteq> fst ?co then [?H] else []"
  let ?y = "fl_add ops (fl_add ops (snd offs) (fl_mul ops (snd sp) 2))
              (segment_length ops (node_value node, node_value child))"
  let ?x' = "fl_add ops sx (fl_mul ops (real (n_terminations child)) (fst sp))"
  have PS: "map (polygon_of ops (scale self) sp) (body_emissions ops node sp offs sx child)
              = ([?V] @ ?E) @ ?T"
    by (simp add: body_emissions_def r0)
  show ?thesis
  proof (cases "store_rectangle self ?V")
    case (Inl x)
    from stores_store [OF inv, of ?V] Inl have "stores self [?V] (Inl x)" by simp
    then have "stores self ([?V] @ (?E @ ?T)) (Inl x)" by (rule stores_Inl_append)
    then have "stores self (([?V] @ ?E) @ ?T) (Inl x)" by simp
    moreover have "dendro_body ops self node r0 sp offs sx child = Inl x"
      using Inl by (simp add: dendro_body.simps child_offsets_def Let_def)
    ultimately show ?thesis by (simp only: PS sum.case)
  next
    case (Inr s1)
    from stores_store [OF inv, of ?V] Inr have s1: "stores self [?V] (Inr s1)" by simp
    define s2 where "s2 = (if ?y > snd (max_dims s1)
                           then s1\<lparr>max_dims := (fst (max_dims s1), ?y)\<rparr> else s1)"
    have s2: "stores self [?V] (Inr s2)" using s1 by (simp add: s2_def stores_max_dims)
    have inv2: "n s2 \<le> length (rectangles s2)" using stores_inv [OF s2] by simp
    have sc2: "scale s2 = scale self" using stores_scale [OF s2] by simp
    from IH [OF inv2, of ?co] have g: "stores s2 ?E (generate_dendro ops s2 child sp ?co)"
      by (simp add: sc2)
    have body: "dendro_body ops self node r0 sp offs sx child
                  = (case generate_dendro ops s2 child sp ?co of
                       Inl e \<Rightarrow> Inl e
                     | Inr s3 \<Rightarrow>
                         if fst offs \<noteq> fst ?co
                         then (case store_rectangle s3 ?H of
                                 Inl e \<Rightarrow> Inl e
                               | Inr s4 \<Rightarrow> Inr (s4, ?x'))
                         else Inr (s3, ?x'))"
      using Inr by (auto simp: dendro_body.simps child_offsets_def Let_def s2_def
          split: sum.splits)
    show ?thesis
    proof (cases "generate_dendro ops s2 child sp ?co")
      case (Inl x)
      from stores_bind [OF s2 g] Inl have "stores self ([?V] @ ?E) (Inl x)" by simp
      then have "stores self (([?V] @ ?E) @ ?T) (Inl x)" by (rule stores_Inl_append)
      moreover have "dendro_body ops self node r0 sp offs sx child = Inl x"
        using body Inl by simp
      ultimately show ?thesis by (simp only: PS sum.case)
    next
      case (Inr s3)
      from stores_bind [OF s2 g] Inr have 3: "stores self ([?V] @ ?E) (Inr s3)" by simp
      have inv3: "n s3 \<le> length (rectangles s3)" using stores_inv [OF 3] by simp
      show ?thesis
      proof (cases "fst offs \<noteq> fst ?co")
        case True
        from stores_bind [OF 3 stores_store [OF inv3, of ?H]]
        have 4: "stores self (([?V] @ ?E) @ [?H]) (store_rectangle s3 ?H)" .
        have T: "?T = [?H]" using True by simp
        show ?thesis
        proof (cases "store_rectangle s3 ?H")
          case (Inl x)
          with body \<open>generate_dendro ops s2 child sp ?co = Inr s3\<close> True
          have "dendro_body ops self node r0 sp offs sx child = Inl x" by simp
          with 4 Inl show ?thesis by (simp only: PS T sum.case)
        next
          case (Inr s4)
          with body \<open>generate_dendro ops s2 child sp ?co = Inr s3\<close> True
          have "dendro_body ops self node r0 sp offs sx child = Inr (s4, ?x')" by simp
          with 4 Inr show ?thesis by (simp only: PS T sum.case prod.case simp_thms)
        qed
      next
        case False
        have T: "?T = []" using False by simp
        from body Inr False
        have "dendro_body ops self node r0 sp offs sx child = Inr (s3, ?x')" by simp
        with 3 show ?thesis by (simp only: PS T sum.case prod.case simp_thms append_Nil2)
      qed
    qed
  qed
qed

lemma dendro_loop_stores:
  assumes "\<And>c s co. c \<in> set cs \<Longrightarrow> n s \<le> length (rectangles s) \<Longrightarrow>
               stores s (map (polygon_of ops (scale s) sp) (emissions ops c sp co))
                 (generate_dendro ops s c sp co)"
    and "n self \<le> length (rectangles self)"
    and "r0 = fl_mul ops (COLS_R (node_value node)) (scale self)"
  shows "stores self (map (polygon_of ops (scale self) sp)
                        (emissions_loop ops node sp offs sx cs))
           (dendro_loop ops self node r0 sp offs sx cs)"
  using assms
proof (induction cs arbitrary: self sx)
  case Nil
  then show ?case by (simp add: stores_def wrote_nil)
next
  case (Cons c cs)
  let ?B = "map (polygon_of ops (scale self) sp) (body_emissions ops node sp offs sx c)"
  let ?x' = "fl_add ops sx (fl_mul ops (real (n_terminations c)) (fst sp))"
  let ?R = "map (polygon_of ops (scale self) sp) (emissions_loop ops node sp offs ?x' cs)"
  have ih_c: "\<And>s co. n s \<le> length (rectangles s) \<Longrightarrow>
               stores s (map (polygon_of ops (scale s) sp) (emissions ops c sp co))
                 (generate_dendro ops s c sp co)"
    using Cons.prems(1) [of c] by simp
  note b = dendro_body_stores [OF Cons.prems(2) ih_c Cons.prems(3), of offs sx]
  have el: "map (polygon_of ops (scale self) sp) (emissions_loop ops node sp offs sx (c # cs))
              = ?B @ ?R"
    by (simp only: emissions_loop_Cons map_append)
  show ?case
  proof (cases "dendro_body ops self node r0 sp offs sx c")
    case (Inl x)
    with b have "stores self ?B (Inl x)" by simp
    then have "stores self (?B @ ?R) (Inl x)" by (rule stores_Inl_append)
    with Inl show ?thesis unfolding el by simp
  next
    case (Inr a)
    obtain s' x where a: "a = (s', x)" by (cases a)
    from b Inr a have 1: "stores self ?B (Inr s')" and x: "x = ?x'" by simp_all
    have inv': "n s' \<le> length (rectangles s')" using stores_inv [OF 1] by simp
    have sc': "scale s' = scale self" using stores_scale [OF 1] by simp
    have "stores s' (map (polygon_of ops (scale s') sp) (emissions_loop ops node sp offs ?x' cs))
            (dendro_loop ops s' node r0 sp offs ?x' cs)"
    proof (rule Cons.IH)
      fix c' and s :: dendrogram and co
      assume "c' \<in> set cs" "n s \<le> length (rectangles s)"
      then show "stores s (map (polygon_of ops (scale s) sp) (emissions ops c' sp co))
                   (generate_dendro ops s c' sp co)"
        using Cons.prems(1) [of c' s co] by simp
    next
      show "n s' \<le> length (rectangles s')" by (rule inv')
    next
      show "r0 = fl_mul ops (COLS_R (node_value node)) (scale s')"
        using Cons.prems(3) sc' by simp
    qed
    then have 2: "stores s' ?R (dendro_loop ops s' node r0 sp offs ?x' cs)"
      by (simp only: sc')
    from stores_bind [OF 1 2] Inr a x show ?thesis unfolding el by simp
  qed
qed

lemma generate_dendro_stores:
  "n self \<le> length (rectangles self) \<Longrightarrow>
     stores self (map (polygon_of ops (scale self) sp) (emissions ops t sp offs))
       (generate_dendro ops self t sp offs)"
proof (induction t arbitrary: self offs)
  case (Tree v cs)
  obtain md sx where sx: "spacingx ops (Tree v cs) (max_dims self) (fst offs) (fst sp) = (md, sx)"
    by (cases "spacingx ops (Tree v cs) (max_dims self) (fst offs) (fst sp)")
  have sx': "snd (spacingx ops (Tree v cs) (0, 0) (fst offs) (fst sp)) = sx"
    using sx snd_spacingx [of ops "Tree v cs" "max_dims self" "fst offs" "fst sp"]
    by (simp add: snd_spacingx)
  have g: "generate_dendro ops self (Tree v cs) sp offs
             = dendro_loop ops (self\<lparr>max_dims := md\<rparr>) (Tree v cs)
                 (fl_mul ops (COLS_R v) (scale self)) sp offs sx cs"
    by (simp add: generate_dendro.simps sx)
  have e: "emissions ops (Tree v cs) sp offs = emissions_loop ops (Tree v cs) sp offs sx cs"
    by (simp add: emissions.simps sx')
  have "stores (self\<lparr>max_dims := md\<rparr>)
          (map (polygon_of ops (scale (self\<lparr>max_dims := md\<rparr>)) sp)
             (emissions_loop ops (Tree v cs) sp offs sx cs))
          (dendro_loop ops (self\<lparr>max_dims := md\<rparr>) (Tree v cs)
             (fl_mul ops (COLS_R v) (scale self)) sp offs sx cs)"
  proof (rule dendro_loop_stores)
    fix c and s :: dendrogram and co
    assume "c \<in> set cs" "n s \<le> length (rectangles s)"
    then show "stores s (map (polygon_of ops (scale s) sp) (emissions ops c sp co))
                 (generate_dendro ops s c sp co)"
      by (rule Tree.IH)
  next
    show "n (self\<lparr>max_dims := md\<rparr>) \<le> length (rectangles (self\<lparr>max_dims := md\<rparr>))"
      using Tree.prems by simp
  next
    show "fl_mul ops (COLS_R v) (scale self)
            = fl_mul ops (COLS_R (node_value (Tree v cs))) (scale (self\<lparr>max_dims := md\<rparr>))"
      by simp
  qed
  then show ?case
    unfolding g e by (intro stores_max_dims_pre [where s = self and md = md]) simp
qed

lemma generate_dendro_buffer:
  assumes "n self \<le> length (rectangles self)"
    and "j < length (emissions ops t sp offs)"
    and "n self + j < length (rectangles self)"
  shows "rectangles (outcome_state (generate_dendro ops self t sp offs)) ! (n self + j)
           = polygon_of ops (scale self) sp (emissions ops t sp offs ! j)"
  using generate_dendro_stores [OF assms(1), of ops sp t offs] assms(2,3)
  by (simp add: stores_def wrote_def)

lemma generate_dendro_n:
  assumes "n self \<le> length (rectangles self)"
  shows "n (outcome_state (generate_dendro ops self t sp offs))
           = min (n self + length (emissions ops t sp offs)) (length (rectangles self))"
  using generate_dendro_stores [OF assms(1), of ops sp t offs]
  by (simp add: stores_def wrote_def)

lemma generate_dendro_isl:
  assumes "n self \<le> length (rectangles self)"
  shows "isl (generate_dendro ops self t sp offs)
           \<longleftrightarrow> length (rectangles self) < n self + length (emissions ops t sp offs)"
  using generate_dendro_stores [OF assms(1), of ops sp t offs]
  by (cases "generate_dendro ops self t sp offs") (auto simp: stores_def)

subsection \<open>The trace of a run\<close>

lemma emissions_loop_append:
  "emissions_loop ops node sp offs sx (pre @ post)
     = emissions_loop ops node sp offs sx pre
       @ emissions_loop ops node sp offs
           (foldl (\<lambda>start_x child.
                     fl_add ops start_x (fl_mul ops (real (n_terminations child)) (fst sp)))
              sx pre) post"
  by (induction pre arbitrary: sx) simp_all

lemma emissions_children:
  "emissions ops t sp offs
     = emissions_loop ops t sp offs (child_start_x ops t sp offs 0) (children t)"
  by (simp add: emissions.simps child_start_x_def)

lemma emissions_split:
  assumes "k < length (children t)"
  shows "emissions ops t sp offs
           = emissions_loop ops t sp offs (child_start_x ops t sp offs 0) (take k (children t))
             @ body_emissions ops t sp offs (child_start_x ops t sp offs k) (children t ! k)
             @ emissions_loop ops t sp offs (child_start_x ops t sp offs (Suc k))
                 (drop (Suc k) (children t))"
proof -
  have c: "children t = take k (children t) @ (children t ! k) # drop (Suc k) (children t)"
    using assms by (simp add: id_take_nth_drop [symmetric])
  have "emissions ops t sp offs
          = emissions_loop ops t sp offs (child_start_x ops t sp offs 0)
              (take k (children t) @ (children t ! k) # drop (Suc k) (children t))"
    using c emissions_children by simp
  also have "\<dots> = emissions_loop ops t sp offs (child_start_x ops t sp offs 0)
                     (take k (children t))
                   @ emissions_loop ops t sp offs (child_start_x ops t sp offs k)
                       ((children t ! k) # drop (Suc k) (children t))"
    by (simp only: emissions_loop_append) (simp add: child_start_x_def)
  also have "emissions_loop ops t sp offs (child_start_x ops t sp offs k)
                       ((children t ! k) # drop (Suc k) (children t))
               = body_emissions ops t sp offs (child_start_x ops t sp offs k) (children t ! k)
                 @ emissions_loop ops t sp offs (child_start_x ops t sp offs (Suc k))
                     (drop (Suc k) (children t))"
    using assms
    by (simp only: emissions_loop_Cons) (simp add: child_start_x_def take_Suc_conv_app_nth)
  finally show ?thesis .
qed

lemma child_index_emission:
  assumes "k < length (children t)"
  shows "child_index ops t sp offs k < length (emissions ops t sp offs)"
    and "emissions ops t sp offs ! child_index ops t sp offs k
           = Vertical t offs (children t ! k) (assigned_offsets ops t sp offs k)"
proof -
  have i: "child_index ops t sp offs k
             = length (emissions_loop ops t sp offs (child_start_x ops t sp offs 0)
                         (take k (children t)))"
    by (simp add: child_index_def child_start_x_def)
  show "child_index ops t sp offs k < length (emissions ops t sp offs)"
    unfolding emissions_split [OF assms] i by (simp add: body_emissions_def)
  show "emissions ops t sp offs ! child_index ops t sp offs k
           = Vertical t offs (children t ! k) (assigned_offsets ops t sp offs k)"
    unfolding emissions_split [OF assms] i
    by (simp add: body_emissions_def nth_append assigned_offsets_def)
qed

text \<open>Every vertical emission is the one of a child of its parent, at the assigned offsets.\<close>

lemma vertical_emission_loop:
  assumes "\<And>c offs'. c \<in> set cs \<Longrightarrow> Vertical p po c' co \<in> set (emissions ops c sp offs')
             \<Longrightarrow> \<exists>k < length (children p). c' = children p ! k
                    \<and> co = assigned_offsets ops p sp po k"
    and "children node = pre @ cs"
    and "Vertical p po c' co
           \<in> set (emissions_loop ops node sp offs
                   (child_start_x ops node sp offs (length pre)) cs)"
  shows "\<exists>k < length (children p). c' = children p ! k \<and> co = assigned_offsets ops p sp po k"
  using assms
proof (induction cs arbitrary: pre)
  case Nil
  then show ?case by simp
next
  case (Cons c cs)
  have k: "length pre < length (children node)" "children node ! length pre = c"
    using Cons.prems(2) by simp_all
  have sx: "fl_add ops (child_start_x ops node sp offs (length pre))
              (fl_mul ops (real (n_terminations c)) (fst sp))
            = child_start_x ops node sp offs (length (pre @ [c]))"
    using Cons.prems(2) by (simp add: child_start_x_def)
  from Cons.prems(3) consider
      (head) "Vertical p po c' co
                = Vertical node offs c
                    (child_offsets ops (child_start_x ops node sp offs (length pre)) sp offs
                       node c)"
    | (sub) "Vertical p po c' co
               \<in> set (emissions ops c sp
                        (child_offsets ops (child_start_x ops node sp offs (length pre)) sp offs
                           node c))"
    | (rest) "Vertical p po c' co
               \<in> set (emissions_loop ops node sp offs
                        (child_start_x ops node sp offs (length (pre @ [c]))) cs)"
    unfolding emissions_loop.simps sx by (auto split: if_splits)
  then show ?case
  proof cases
    case head
    with k show ?thesis by (auto simp: assigned_offsets_def)
  next
    case sub
    with Cons.prems(1) [of c] show ?thesis by simp
  next
    case rest
    show ?thesis
    proof (rule Cons.IH [of "pre @ [c]"])
      fix d offs'
      assume "d \<in> set cs" "Vertical p po c' co \<in> set (emissions ops d sp offs')"
      then show "\<exists>k < length (children p). c' = children p ! k
                    \<and> co = assigned_offsets ops p sp po k"
        using Cons.prems(1) [of d offs'] by simp
    next
      show "children node = (pre @ [c]) @ cs" using Cons.prems(2) by simp
    next
      show "Vertical p po c' co
              \<in> set (emissions_loop ops node sp offs
                       (child_start_x ops node sp offs (length (pre @ [c]))) cs)"
        by (rule rest)
    qed
  qed
qed

lemma vertical_emission:
  "Vertical p po c co \<in> set (emissions ops t sp offs)
     \<Longrightarrow> \<exists>k < length (children p). c = children p ! k \<and> co = assigned_offsets ops p sp po k"
proof (induction t arbitrary: offs)
  case (Tree v cs)
  show ?case
  proof (rule vertical_emission_loop [of cs p po c co ops sp "Tree v cs" "[]" offs])
    fix d offs'
    assume "d \<in> set cs" "Vertical p po c co \<in> set (emissions ops d sp offs')"
    then show "\<exists>k < length (children p). c = children p ! k
                  \<and> co = assigned_offsets ops p sp po k"
      by (rule Tree.IH)
  next
    show "children (Tree v cs) = [] @ cs" by simp
  next
    show "Vertical p po c co
            \<in> set (emissions_loop ops (Tree v cs) sp offs
                     (child_start_x ops (Tree v cs) sp offs (length [])) cs)"
      using Tree.prems by (simp add: emissions_children)
  qed
qed

lemma snd_assigned_offsets:
  "snd (assigned_offsets ops p sp po k)
     = fl_add ops (fl_add ops (snd po) (fl_mul ops (snd sp) 2))
         (segment_length ops (node_value p, node_value (children p ! k)))"
  by (simp add: assigned_offsets_def child_offsets_def update_offsets_def)

text \<open>Horizontal emissions match the vertical ones whose x-offsets differ, one to one.\<close>

lemma count_horizontal_loop:
  assumes "\<And>c offs'. c \<in> set cs \<Longrightarrow>
             count_list (emissions ops c sp offs') (Horizontal p po c' co)
               = (if fst po \<noteq> fst co
                  then count_list (emissions ops c sp offs') (Vertical p po c' co) else 0)"
  shows "count_list (emissions_loop ops node sp offs sx cs) (Horizontal p po c' co)
           = (if fst po \<noteq> fst co
              then count_list (emissions_loop ops node sp offs sx cs) (Vertical p po c' co)
              else 0)"
  using assms
proof (induction cs arbitrary: sx)
  case Nil
  show ?case by simp
next
  case (Cons c cs)
  have ih: "count_list (emissions_loop ops node sp offs sx' cs) (Horizontal p po c' co)
           = (if fst po \<noteq> fst co
              then count_list (emissions_loop ops node sp offs sx' cs) (Vertical p po c' co)
              else 0)" for sx'
    by (rule Cons.IH) (use Cons.prems in simp)
  have sub: "count_list (emissions ops c sp offs') (Horizontal p po c' co)
               = (if fst po \<noteq> fst co
                  then count_list (emissions ops c sp offs') (Vertical p po c' co) else 0)"
    for offs'
    using Cons.prems [of c offs'] by simp
  show ?case
    by (auto simp: ih sub)
qed

lemma count_horizontal:
  "count_list (emissions ops t sp offs) (Horizontal p po c co)
     = (if fst po \<noteq> fst co then count_list (emissions ops t sp offs) (Vertical p po c co)
        else 0)"
proof (induction t arbitrary: offs)
  case (Tree v cs)
  show ?case
    unfolding emissions_children
    by (rule count_horizontal_loop) (use Tree.IH in simp)
qed

lemma horizontal_emission:
  "Horizontal p po c co \<in> set (emissions ops t sp offs)
     \<Longrightarrow> Vertical p po c co \<in> set (emissions ops t sp offs) \<and> fst po \<noteq> fst co"
proof -
  assume "Horizontal p po c co \<in> set (emissions ops t sp offs)"
  then have "count_list (emissions ops t sp offs) (Horizontal p po c co) \<noteq> 0"
    using count_list_0_iff [of "emissions ops t sp offs" "Horizontal p po c co"] by blast
  then show ?thesis
    unfolding count_horizontal
    using count_list_0_iff [of "emissions ops t sp offs" "Vertical p po c co"]
    by (auto split: if_splits)
qed

text \<open>The vertical emissions are the edges of the tree, in pre-order.\<close>

lemma vertical_edges_loop:
  assumes "\<And>c offs'. c \<in> set cs \<Longrightarrow>
             map edge_of (filter is_vertical (emissions ops c sp offs')) = tree_edges c"
  shows "map edge_of (filter is_vertical (emissions_loop ops node sp offs sx cs))
           = concat (map (\<lambda>c. (node, c) # tree_edges c) cs)"
  using assms by (induction cs arbitrary: sx) simp_all

lemma vertical_edges:
  "map edge_of (filter is_vertical (emissions ops t sp offs)) = tree_edges t"
proof (induction t arbitrary: offs)
  case (Tree v cs)
  show ?case
    unfolding emissions_children
    by (simp add: vertical_edges_loop [OF Tree.IH])
qed

lemma length_tree_edges: "length (tree_edges t) = n_segments t"
  by (induction t) (simp add: length_concat comp_def cong: map_cong)

text \<open>The offsets of a vertical emission's parent are those the parent was laid out at.\<close>

lemma vertical_parent_loop:
  assumes "\<And>c offs'. c \<in> set cs \<Longrightarrow> Vertical p po c' co \<in> set (emissions ops c sp offs')
             \<Longrightarrow> (p = c \<and> po = offs')
                 \<or> (\<exists>g go. Vertical g go p po \<in> set (emissions ops c sp offs'))"
    and "Vertical p po c' co \<in> set (emissions_loop ops node sp offs sx cs)"
  shows "(p = node \<and> po = offs)
         \<or> (\<exists>g go. Vertical g go p po \<in> set (emissions_loop ops node sp offs sx cs))"
  using assms
proof (induction cs arbitrary: sx)
  case Nil
  then show ?case by simp
next
  case (Cons c cs)
  let ?co = "child_offsets ops sx sp offs node c"
  let ?sx = "fl_add ops sx (fl_mul ops (real (n_terminations c)) (fst sp))"
  from Cons.prems(2) consider
      (head) "Vertical p po c' co = Vertical node offs c ?co"
    | (sub) "Vertical p po c' co \<in> set (emissions ops c sp ?co)"
    | (rest) "Vertical p po c' co \<in> set (emissions_loop ops node sp offs ?sx cs)"
    by (auto split: if_splits)
  then show ?case
  proof cases
    case head
    then show ?thesis by simp
  next
    case sub
    from Cons.prems(1) [of c ?co, OF _ sub]
    have "(p = c \<and> po = ?co) \<or> (\<exists>g go. Vertical g go p po \<in> set (emissions ops c sp ?co))"
      by simp
    then show ?thesis
    proof
      assume "p = c \<and> po = ?co"
      then have "Vertical node offs p po \<in> set (emissions_loop ops node sp offs sx (c # cs))"
        by simp
      then show ?thesis by blast
    next
      assume "\<exists>g go. Vertical g go p po \<in> set (emissions ops c sp ?co)"
      then obtain g go where "Vertical g go p po \<in> set (emissions ops c sp ?co)" by blast
      then have "Vertical g go p po \<in> set (emissions_loop ops node sp offs sx (c # cs))"
        by simp
      then show ?thesis by blast
    qed
  next
    case rest
    have "(p = node \<and> po = offs)
         \<or> (\<exists>g go. Vertical g go p po \<in> set (emissions_loop ops node sp offs ?sx cs))"
    proof (rule Cons.IH)
      fix d offs'
      assume "d \<in> set cs" "Vertical p po c' co \<in> set (emissions ops d sp offs')"
      then show "(p = d \<and> po = offs')
                 \<or> (\<exists>g go. Vertical g go p po \<in> set (emissions ops d sp offs'))"
        using Cons.prems(1) [of d offs'] by simp
    next
      show "Vertical p po c' co \<in> set (emissions_loop ops node sp offs ?sx cs)" by (rule rest)
    qed
    then show ?thesis
    proof
      assume "p = node \<and> po = offs"
      then show ?thesis by simp
    next
      assume "\<exists>g go. Vertical g go p po \<in> set (emissions_loop ops node sp offs ?sx cs)"
      then obtain g go where
        "Vertical g go p po \<in> set (emissions_loop ops node sp offs ?sx cs)" by blast
      then have "Vertical g go p po \<in> set (emissions_loop ops node sp offs sx (c # cs))"
        by simp
      then show ?thesis by blast
    qed
  qed
qed

lemma vertical_parent:
  "Vertical p po c co \<in> set (emissions ops t sp offs)
     \<Longrightarrow> (p = t \<and> po = offs) \<or> (\<exists>g go. Vertical g go p po \<in> set (emissions ops t sp offs))"
proof (induction t arbitrary: offs)
  case (Tree v cs)
  have "(p = Tree v cs \<and> po = offs)
         \<or> (\<exists>g go. Vertical g go p po
               \<in> set (emissions_loop ops (Tree v cs) sp offs
                        (child_start_x ops (Tree v cs) sp offs 0) cs))"
  proof (rule vertical_parent_loop)
    fix d offs'
    assume "d \<in> set cs" "Vertical p po c co \<in> set (emissions ops d sp offs')"
    then show "(p = d \<and> po = offs')
                 \<or> (\<exists>g go. Vertical g go p po \<in> set (emissions ops d sp offs'))"
      by (rule Tree.IH)
  next
    show "Vertical p po c co
            \<in> set (emissions_loop ops (Tree v cs) sp offs
                     (child_start_x ops (Tree v cs) sp offs 0) cs)"
      using Tree.prems by (simp add: emissions_children)
  qed
  then show ?case by (simp add: emissions_children)
qed

subsection \<open>Horizontal placement\<close>

lemma n_terminations_children:
  "children current_node \<noteq> [] \<Longrightarrow>
     n_terminations current_node = sum_list (map n_terminations (children current_node))"
  by (cases current_node) simp

lemma n_terminations_pos: "0 < n_terminations t"
proof (induction t)
  case (Tree v cs)
  show ?case
  proof (cases cs)
    case Nil
    then show ?thesis by simp
  next
    case (Cons c cs')
    with Tree.IH [of c] show ?thesis by simp
  qed
qed

lemma child_start_x_map:
  "child_start_x ops t sp offs k
     = foldl (\<lambda>start_x m. fl_add ops start_x (fl_mul ops (real m) (fst sp)))
         (fl_sub ops (fst offs) (fl_div ops (fl_mul ops (real (n_terminations t)) (fst sp)) 2))
         (take k (map n_terminations (children t)))"
  by (simp add: child_start_x_def snd_spacingx take_map foldl_map)

lemma fst_assigned_offsets:
  "fst (assigned_offsets ops t sp offs k)
     = fl_add ops (child_start_x ops t sp offs k)
         (fl_div ops (fl_mul ops (fst sp) (real (n_terminations (children t ! k)))) 2)"
  by (simp add: assigned_offsets_def child_offsets_def update_offsets_def)

lemma assigned_offsets_same_x:
  assumes "k < length (children t1)"
    and "map n_terminations (children t2) = map n_terminations (children t1)"
    and "fst offs2 = fst offs1"
  shows "fst (assigned_offsets ops t2 sp offs2 k) = fst (assigned_offsets ops t1 sp offs1 k)"
proof -
  from assms(2) have len: "length (children t2) = length (children t1)"
    by (metis length_map)
  with assms(1) have k2: "k < length (children t2)" by simp
  from assms(1) k2 have ne: "children t1 \<noteq> []" "children t2 \<noteq> []" by auto
  have nt: "n_terminations t2 = n_terminations t1"
    by (simp add: n_terminations_children ne assms(2))
  have nk: "n_terminations (children t2 ! k) = n_terminations (children t1 ! k)"
    using assms(1,2) k2 by (metis nth_map)
  show ?thesis
    by (simp add: fst_assigned_offsets child_start_x_map nt nk assms(2,3))
qed

lemma foldl_exact_sum:
  "foldl (\<lambda>start_x m. start_x + real m * a) z ms = z + a * real (sum_list ms)"
  by (induction ms arbitrary: z) (simp_all add: algebra_simps)

lemma assigned_offsets_x:
  assumes "k < length (children t)"
  shows "fst (assigned_offsets exact_ops t sp offs k)
           = fst offs
             + fst sp
               * (real (sum_list (map n_terminations (take k (children t))))
                  + real (n_terminations (children t ! k)) / 2
                  - real (sum_list (map n_terminations (children t))) / 2)"
proof -
  from assms have "children t \<noteq> []" by auto
  then show ?thesis
    by (simp add: fst_assigned_offsets child_start_x_map exact_ops_simps foldl_exact_sum
        n_terminations_children take_map algebra_simps)
qed

lemma horizontal_bifurcation:
  assumes "Horizontal p po c co \<in> set (emissions exact_ops t sp offs)"
  shows "2 \<le> length (children p)"
proof (rule ccontr)
  assume "\<not> 2 \<le> length (children p)"
  from horizontal_emission [OF assms]
  have v: "Vertical p po c co \<in> set (emissions exact_ops t sp offs)" and d: "fst po \<noteq> fst co"
    by simp_all
  from vertical_emission [OF v] obtain k where k: "k < length (children p)"
    and co: "co = assigned_offsets exact_ops p sp po k" by blast
  from k \<open>\<not> 2 \<le> length (children p)\<close> have l: "length (children p) = 1" "k = 0" by simp_all
  then obtain d' where c: "children p = [d']" by (cases "children p") simp_all
  have "fst co = fst po"
    unfolding co assigned_offsets_x [OF k] by (simp add: c l)
  with d show False by simp
qed

subsection \<open>The traces of the concrete trees\<close>

lemma E_uneven:
  "emissions exact_ops uneven_tree (40, 0) (0, 0)
     = [Vertical uneven_tree (0, 0) (children uneven_tree ! 0) (- 40, 1),
        Horizontal uneven_tree (0, 0) (children uneven_tree ! 0) (- 40, 1),
        Vertical uneven_tree (0, 0) (children uneven_tree ! 1) (20, 1),
        Vertical (children uneven_tree ! 1) (20, 1) (children (children uneven_tree ! 1) ! 0) (0, 2),
        Horizontal (children uneven_tree ! 1) (20, 1) (children (children uneven_tree ! 1) ! 0) (0, 2),
        Vertical (children uneven_tree ! 1) (20, 1) (children (children uneven_tree ! 1) ! 1) (40, 3),
        Horizontal (children uneven_tree ! 1) (20, 1) (children (children uneven_tree ! 1) ! 1) (40, 3),
        Horizontal uneven_tree (0, 0) (children uneven_tree ! 1) (20, 1)]"
  by (simp add: uneven_tree_def emissions.simps dendro_eval_simps)

lemma E_trifurcation:
  "emissions exact_ops trifurcation_tree (40, 0) (0, 0)
     = [Vertical trifurcation_tree (0, 0) (children trifurcation_tree ! 0) (- 60, 1),
        Horizontal trifurcation_tree (0, 0) (children trifurcation_tree ! 0) (- 60, 1),
        Vertical trifurcation_tree (0, 0) (children trifurcation_tree ! 1) (- 20, 1),
        Horizontal trifurcation_tree (0, 0) (children trifurcation_tree ! 1) (- 20, 1),
        Vertical trifurcation_tree (0, 0) (children trifurcation_tree ! 2) (40, 1),
        Vertical (children trifurcation_tree ! 2) (40, 1)
          (children (children trifurcation_tree ! 2) ! 0) (20, 2),
        Horizontal (children trifurcation_tree ! 2) (40, 1)
          (children (children trifurcation_tree ! 2) ! 0) (20, 2),
        Vertical (children trifurcation_tree ! 2) (40, 1)
          (children (children trifurcation_tree ! 2) ! 1) (60, 3),
        Horizontal (children trifurcation_tree ! 2) (40, 1)
          (children (children trifurcation_tree ! 2) ! 1) (60, 3),
        Horizontal trifurcation_tree (0, 0) (children trifurcation_tree ! 2) (40, 1)]"
  by (simp add: trifurcation_tree_def emissions.simps dendro_eval_simps)

lemma E_chain:
  "emissions exact_ops chain_tree (40, 0) (0, 0)
     = [Vertical chain_tree (0, 0) (children chain_tree ! 0) (0, 1)]"
  by (simp add: chain_tree_def emissions.simps dendro_eval_simps)

subsection \<open>The vertical polygon of an edge\<close>

text \<open>
  C7. Take any run of \<^verbatim>\<open>_generate_dendro\<close> on a tree \<open>t\<close>, from any state whose write index
  is within the buffer, with any arithmetic, and the edge processed at position \<open>j\<close> of
  the run: parent \<open>p\<close> laid out at the offsets \<open>po\<close>, child \<open>c\<close> with the new offsets \<open>co\<close>.
  Then \<open>c\<close> is a child of \<open>p\<close>; the child's y-offset is the parent's plus twice the
  vertical spacing plus the segment length; \<open>po\<close> is the offsets the run was called with
  if \<open>p\<close> is the root, and otherwise the new offsets of the edge that leads to \<open>p\<close>; and if
  the index \<open>n + j\<close> is within the buffer, the polygon stored there, whether the run
  returns or raises later, has exactly the four vertices: top left and top right at the
  child's x-offset minus and plus the parent's scaled radius, at the parent's y-offset
  plus the vertical spacing; bottom left and bottom right at the child's x-offset minus
  and plus the child's scaled radius, at the child's y-offset. The edges processed are
  all the edges of the tree, once each, in pre-order, and the run raises exactly when the
  polygons do not all fit.
\<close>

theorem C7_vertical_polygon:
  assumes "n self \<le> length (rectangles self)"
    and "j < length (emissions ops t sp offs)"
    and "emissions ops t sp offs ! j = Vertical p po c co"
  shows "c \<in> set (children p)
         \<and> snd co = fl_add ops (fl_add ops (snd po) (fl_mul ops (snd sp) 2))
                      (segment_length ops (node_value p, node_value c))
         \<and> (n self + j < length (rectangles self) \<longrightarrow>
              rectangles (outcome_state (generate_dendro ops self t sp offs)) ! (n self + j)
                = [(fl_sub ops (fst co) (fl_mul ops (COLS_R (node_value p)) (scale self)),
                    fl_add ops (snd po) (snd sp)),
                   (fl_sub ops (fst co) (fl_mul ops (COLS_R (node_value c)) (scale self)),
                    snd co),
                   (fl_add ops (fst co) (fl_mul ops (COLS_R (node_value c)) (scale self)),
                    snd co),
                   (fl_add ops (fst co) (fl_mul ops (COLS_R (node_value p)) (scale self)),
                    fl_add ops (snd po) (snd sp))])
         \<and> ((p = t \<and> po = offs)
              \<or> (\<exists>g go. Vertical g go p po \<in> set (emissions ops t sp offs)))
         \<and> map edge_of (filter is_vertical (emissions ops t sp offs)) = tree_edges t
         \<and> (isl (generate_dendro ops self t sp offs)
              \<longleftrightarrow> length (rectangles self) < n self + length (emissions ops t sp offs))"
proof -
  from assms(2,3) have m: "Vertical p po c co \<in> set (emissions ops t sp offs)"
    by (metis nth_mem)
  from vertical_emission [OF m] obtain k where k: "k < length (children p)"
    "c = children p ! k" "co = assigned_offsets ops p sp po k" by blast
  from k have 1: "c \<in> set (children p)" by simp
  from k have 2: "snd co = fl_add ops (fl_add ops (snd po) (fl_mul ops (snd sp) 2))
                      (segment_length ops (node_value p, node_value c))"
    by (simp add: snd_assigned_offsets)
  have 3: "rectangles (outcome_state (generate_dendro ops self t sp offs)) ! (n self + j)
                = [(fl_sub ops (fst co) (fl_mul ops (COLS_R (node_value p)) (scale self)),
                    fl_add ops (snd po) (snd sp)),
                   (fl_sub ops (fst co) (fl_mul ops (COLS_R (node_value c)) (scale self)),
                    snd co),
                   (fl_add ops (fst co) (fl_mul ops (COLS_R (node_value c)) (scale self)),
                    snd co),
                   (fl_add ops (fst co) (fl_mul ops (COLS_R (node_value p)) (scale self)),
                    fl_add ops (snd po) (snd sp))]"
    if "n self + j < length (rectangles self)"
    using generate_dendro_buffer [OF assms(1,2) that]
    by (simp add: assms(3) vertical_segment_def)
  from 1 2 3 vertical_parent [OF m] vertical_edges [of ops t sp offs]
    generate_dendro_isl [OF assms(1), of ops t sp offs]
  show ?thesis by blast
qed

text \<open>
  On \<open>uneven_tree\<close> the run returns; the edge at position 5 goes from the second child of
  the root (radius 1, laid out at \<open>(20, 1)\<close>) to its second child (radius 1, segment
  length 2), and the polygon at index 5 is the trapezoid between \<open>y = 1\<close> and \<open>y = 3\<close>
  around \<open>x = 40\<close>. On \<open>trifurcation_tree\<close> the run raises, and the polygon of the edge at
  position 7, stored before, is in the buffer.
\<close>

theorem C7_vertical_polygon_witness:
  "emissions exact_ops uneven_tree (40, 0) (0, 0) ! 5
     = Vertical (children uneven_tree ! 1) (20, 1)
         (children (children uneven_tree ! 1) ! 1) (40, 3)
   \<and> node_value (children uneven_tree ! 1) = sample 0 1 0 1
   \<and> node_value (children (children uneven_tree ! 1) ! 1) = sample 0 3 0 1
   \<and> segment_length exact_ops (sample 0 1 0 1, sample 0 3 0 1) = 2
   \<and> \<not> isl (generate_dendro exact_ops (Dendrogram_init (TreeObj uneven_tree)) uneven_tree
               (40, 0) (0, 0))
   \<and> rectangles (outcome_state
        (generate_dendro exact_ops (Dendrogram_init (TreeObj uneven_tree)) uneven_tree
           (40, 0) (0, 0))) ! 5
       = [(39, 1), (39, 3), (41, 3), (41, 1)]
   \<and> emissions exact_ops trifurcation_tree (40, 0) (0, 0) ! 7
       = Vertical (children trifurcation_tree ! 2) (40, 1)
           (children (children trifurcation_tree ! 2) ! 1) (60, 3)
   \<and> isl (generate_dendro exact_ops (Dendrogram_init (TreeObj trifurcation_tree))
             trifurcation_tree (40, 0) (0, 0))
   \<and> rectangles (outcome_state
        (generate_dendro exact_ops (Dendrogram_init (TreeObj trifurcation_tree))
           trifurcation_tree (40, 0) (0, 0))) ! 7
       = [(59, 1), (59, 3), (61, 3), (61, 1)]"
proof -
  let ?Du = "Dendrogram_init (TreeObj uneven_tree)"
  let ?Dt = "Dendrogram_init (TreeObj trifurcation_tree)"
  have iu: "n ?Du \<le> length (rectangles ?Du)" and it: "n ?Dt \<le> length (rectangles ?Dt)"
    by (simp_all add: init_simps)
  have lu: "length (rectangles ?Du) = 8" and lt: "length (rectangles ?Dt) = 9"
    by (simp_all add: init_simps uneven_tree_def trifurcation_tree_def total_rectangles_def)
  have ju: "5 < length (emissions exact_ops uneven_tree (40, 0) (0, 0))"
    and jt: "7 < length (emissions exact_ops trifurcation_tree (40, 0) (0, 0))"
    by (simp_all add: E_uneven E_trifurcation)
  have eu: "emissions exact_ops uneven_tree (40, 0) (0, 0) ! 5
     = Vertical (children uneven_tree ! 1) (20, 1)
         (children (children uneven_tree ! 1) ! 1) (40, 3)"
    by (simp add: E_uneven)
  have et: "emissions exact_ops trifurcation_tree (40, 0) (0, 0) ! 7
       = Vertical (children trifurcation_tree ! 2) (40, 1)
           (children (children trifurcation_tree ! 2) ! 1) (60, 3)"
    by (simp add: E_trifurcation)
  have v: "node_value (children uneven_tree ! 1) = sample 0 1 0 1"
    "node_value (children (children uneven_tree ! 1) ! 1) = sample 0 3 0 1"
    "node_value (children trifurcation_tree ! 2) = sample 0 0 1 1"
    "node_value (children (children trifurcation_tree ! 2) ! 1) = sample 0 0 3 1"
    by (simp_all add: uneven_tree_def trifurcation_tree_def)
  have s: "segment_length exact_ops (sample 0 1 0 1, sample 0 3 0 1) = 2"
    by (simp add: dendro_eval_simps)
  note u = C7_vertical_polygon [OF iu ju eu]
  note t = C7_vertical_polygon [OF it jt et]
  from u have 1: "\<not> isl (generate_dendro exact_ops ?Du uneven_tree (40, 0) (0, 0))"
    by (simp add: init_simps(1) lu E_uneven)
  from u v have 2: "rectangles (outcome_state
        (generate_dendro exact_ops ?Du uneven_tree (40, 0) (0, 0))) ! 5
       = [(39, 1), (39, 3), (41, 3), (41, 1)]"
    by (simp add: init_simps(1,2) lu sample_def exact_ops_simps(1-4))
  from t have 3: "isl (generate_dendro exact_ops ?Dt trifurcation_tree (40, 0) (0, 0))"
    by (simp add: init_simps(1) lt E_trifurcation)
  from t v have 4: "rectangles (outcome_state
        (generate_dendro exact_ops ?Dt trifurcation_tree (40, 0) (0, 0))) ! 7
       = [(59, 1), (59, 3), (61, 3), (61, 1)]"
    by (simp add: init_simps(1,2) lt sample_def exact_ops_simps(1-4))
  from eu v(1,2) s 1 2 et 3 4 show ?thesis by blast
qed

subsection \<open>The horizontal connector of an edge\<close>

text \<open>
  C8. In the trace of any run, with any arithmetic, the horizontal polygons are, one to
  one, those of the edges whose child's new x-offset differs from the parent's x-offset:
  an edge with equal x-offsets has none. The buffer holds, from the write index on, the
  polygons of the trace in their order (as far as it goes), the horizontal polygon of an
  edge being the segment from the parent's to the child's x-offset at the parent's
  y-offset plus the vertical spacing, of thickness 0; the final write index is the start
  index plus the number of polygons of the trace, capped by the buffer length; the
  vertical polygons of the trace are as many as the segments of the tree. Without
  rounding, the parent of an edge that has a horizontal polygon has at least two
  children (the only child of a node is placed at the x-offset of the node). The
  x-offsets of \<^verbatim>\<open>generate\<close>, multiples of 20, are computed without rounding by doubles.
\<close>

theorem C8_horizontal_polygon:
  assumes "n self \<le> length (rectangles self)"
  shows "count_list (emissions ops t sp offs) (Horizontal p po c co)
           = (if fst po \<noteq> fst co then count_list (emissions ops t sp offs) (Vertical p po c co)
              else 0)
         \<and> (\<forall>j < length (emissions ops t sp offs). n self + j < length (rectangles self) \<longrightarrow>
              rectangles (outcome_state (generate_dendro ops self t sp offs)) ! (n self + j)
                = polygon_of ops (scale self) sp (emissions ops t sp offs ! j))
         \<and> polygon_of ops (scale self) sp (Horizontal p po c co)
             = [(fst po, fl_add ops (snd po) (snd sp)),
                (fst co, fl_add ops (snd po) (snd sp)),
                (fst co, fl_sub ops (fl_add ops (snd po) (snd sp)) 0),
                (fst po, fl_sub ops (fl_add ops (snd po) (snd sp)) 0)]
         \<and> n (outcome_state (generate_dendro ops self t sp offs))
             = min (n self + length (emissions ops t sp offs)) (length (rectangles self))
         \<and> length (filter is_vertical (emissions ops t sp offs)) = n_segments t
         \<and> (Horizontal p po c co \<in> set (emissions exact_ops t sp offs)
              \<longrightarrow> 2 \<le> length (children p))"
proof -
  have 2: "\<forall>j < length (emissions ops t sp offs). n self + j < length (rectangles self) \<longrightarrow>
              rectangles (outcome_state (generate_dendro ops self t sp offs)) ! (n self + j)
                = polygon_of ops (scale self) sp (emissions ops t sp offs ! j)"
    using generate_dendro_buffer [OF assms] by blast
  have 3: "polygon_of ops (scale self) sp (Horizontal p po c co)
             = [(fst po, fl_add ops (snd po) (snd sp)),
                (fst co, fl_add ops (snd po) (snd sp)),
                (fst co, fl_sub ops (fl_add ops (snd po) (snd sp)) 0),
                (fst po, fl_sub ops (fl_add ops (snd po) (snd sp)) 0)]"
    by (simp add: horizontal_segment_def)
  have 5: "length (filter is_vertical (emissions ops t sp offs)) = n_segments t"
    using vertical_edges [of ops t sp offs, THEN arg_cong, of length]
    by (simp add: length_tree_edges)
  from count_horizontal [of ops t sp offs p po c co] 2 3 generate_dendro_n [OF assms, of ops t sp offs]
    5 horizontal_bifurcation [of p po c co t sp offs]
  show ?thesis by blast
qed

text \<open>
  On \<open>uneven_tree\<close> the connector of the second child of the root (x-offset 20 against 0)
  is in the trace once, at position 7, and the polygon at index 7 of the buffer is this
  connector; eight polygons are stored. On \<open>chain_tree\<close>, whose root has one child, placed
  at the x-offset 0 of the root, the trace has the vertical polygon only and one polygon
  is stored.
\<close>

theorem C8_horizontal_polygon_witness:
  "count_list (emissions exact_ops uneven_tree (40, 0) (0, 0))
       (Horizontal uneven_tree (0, 0) (children uneven_tree ! 1) (20, 1)) = 1
   \<and> emissions exact_ops uneven_tree (40, 0) (0, 0) ! 7
       = Horizontal uneven_tree (0, 0) (children uneven_tree ! 1) (20, 1)
   \<and> rectangles (outcome_state
        (generate_dendro exact_ops (Dendrogram_init (TreeObj uneven_tree)) uneven_tree
           (40, 0) (0, 0))) ! 7
       = [(0, 0), (20, 0), (20, 0), (0, 0)]
   \<and> n (outcome_state
        (generate_dendro exact_ops (Dendrogram_init (TreeObj uneven_tree)) uneven_tree
           (40, 0) (0, 0))) = 8
   \<and> 2 \<le> length (children uneven_tree)
   \<and> length (children chain_tree) = 1
   \<and> emissions exact_ops chain_tree (40, 0) (0, 0)
       = [Vertical chain_tree (0, 0) (children chain_tree ! 0) (0, 1)]
   \<and> count_list (emissions exact_ops chain_tree (40, 0) (0, 0))
       (Horizontal chain_tree (0, 0) (children chain_tree ! 0) (0, 1)) = 0
   \<and> n (outcome_state
        (generate_dendro exact_ops (Dendrogram_init (TreeObj chain_tree)) chain_tree
           (40, 0) (0, 0))) = 1"
proof -
  let ?Du = "Dendrogram_init (TreeObj uneven_tree)"
  let ?Dc = "Dendrogram_init (TreeObj chain_tree)"
  have iu: "n ?Du \<le> length (rectangles ?Du)" and ic: "n ?Dc \<le> length (rectangles ?Dc)"
    by (simp_all add: init_simps)
  have lu: "length (rectangles ?Du) = 8" and lc: "length (rectangles ?Dc) = 1"
    by (simp_all add: init_simps uneven_tree_def chain_tree_def total_rectangles_def)
  have e7: "emissions exact_ops uneven_tree (40, 0) (0, 0) ! 7
       = Horizontal uneven_tree (0, 0) (children uneven_tree ! 1) (20, 1)"
    by (simp add: E_uneven)
  have le: "length (emissions exact_ops uneven_tree (40, 0) (0, 0)) = 8"
    "length (emissions exact_ops chain_tree (40, 0) (0, 0)) = 1"
    by (simp_all add: E_uneven E_chain)
  have m: "Horizontal uneven_tree (0, 0) (children uneven_tree ! 1) (20, 1)
             \<in> set (emissions exact_ops uneven_tree (40, 0) (0, 0))"
    using e7 le(1) by (metis nth_mem numeral_less_iff semiring_norm(76,79,81))
  have cv: "count_list (emissions exact_ops uneven_tree (40, 0) (0, 0))
       (Vertical uneven_tree (0, 0) (children uneven_tree ! 1) (20, 1)) = 1"
    by (simp only: E_uneven) (simp add: uneven_tree_def sample_def)
  have lc1: "length (children chain_tree) = 1"
    by (simp add: chain_tree_def)
  note u = C8_horizontal_polygon [OF iu, of exact_ops uneven_tree "(40, 0)" "(0, 0)"
      uneven_tree "(0, 0)" "children uneven_tree ! 1" "(20, 1)"]
  note c = C8_horizontal_polygon [OF ic, of exact_ops chain_tree "(40, 0)" "(0, 0)"
      chain_tree "(0, 0)" "children chain_tree ! 0" "(0, 1)"]
  from u cv have 1: "count_list (emissions exact_ops uneven_tree (40, 0) (0, 0))
       (Horizontal uneven_tree (0, 0) (children uneven_tree ! 1) (20, 1)) = 1"
    by simp
  from u have "rectangles (outcome_state
        (generate_dendro exact_ops ?Du uneven_tree (40, 0) (0, 0))) ! (n ?Du + 7)
       = polygon_of exact_ops (scale ?Du) (40, 0)
           (emissions exact_ops uneven_tree (40, 0) (0, 0) ! 7)"
    by (simp add: le lu init_simps(1))
  with u have 2: "rectangles (outcome_state
        (generate_dendro exact_ops ?Du uneven_tree (40, 0) (0, 0))) ! 7
       = [(0, 0), (20, 0), (20, 0), (0, 0)]"
    by (simp add: e7 init_simps(1) exact_ops_simps(1-4))
  from u have 3: "n (outcome_state
        (generate_dendro exact_ops ?Du uneven_tree (40, 0) (0, 0))) = 8"
    by (simp add: le lu init_simps(1))
  from u m have 4: "2 \<le> length (children uneven_tree)" by blast
  from c have 5: "count_list (emissions exact_ops chain_tree (40, 0) (0, 0))
       (Horizontal chain_tree (0, 0) (children chain_tree ! 0) (0, 1)) = 0"
    by simp
  from c have 6: "n (outcome_state
        (generate_dendro exact_ops ?Dc chain_tree (40, 0) (0, 0))) = 1"
    by (simp add: le lc init_simps(1))
  from 1 e7 2 3 4 lc1 E_chain 5 6 show ?thesis by blast
qed

subsection \<open>The x-offset of a child\<close>

text \<open>
  C9 (as amended). Take two runs of \<^verbatim>\<open>_generate_dendro\<close>, with the same arithmetic and
  spacing, on two trees whose roots are laid out at the same x-offset and whose children
  have, one by one, the same termination counts. Then the child of index \<open>k\<close> is assigned
  the same x-offset in both runs, whatever the internal structure of the children: the
  vertical polygon of its edge is at position \<open>child_index\<close> of each trace, carrying
  \<open>assigned_offsets\<close> (the \<^verbatim>\<open>new_offsets\<close> computed from the value that \<^verbatim>\<open>start_x\<close> has
  after the earlier children), and, if that index is within the buffer, the polygon
  stored there is the vertical polygon around this x-offset. Without rounding the
  x-offset is the parent's plus the horizontal spacing times (the termination counts of
  the earlier children, plus half the child's own, minus half the total of the children).
  By lemma \<open>vertical_emission\<close> every edge of a run carries the assigned offsets of its
  child under its parent.
\<close>

theorem C9_child_x_offset:
  assumes "n s1 \<le> length (rectangles s1)" and "n s2 \<le> length (rectangles s2)"
    and "k < length (children t1)"
    and "map n_terminations (children t2) = map n_terminations (children t1)"
    and "fst offs2 = fst offs1"
  shows "fst (assigned_offsets ops t2 sp offs2 k) = fst (assigned_offsets ops t1 sp offs1 k)
         \<and> child_index ops t1 sp offs1 k < length (emissions ops t1 sp offs1)
         \<and> child_index ops t2 sp offs2 k < length (emissions ops t2 sp offs2)
         \<and> emissions ops t1 sp offs1 ! child_index ops t1 sp offs1 k
             = Vertical t1 offs1 (children t1 ! k) (assigned_offsets ops t1 sp offs1 k)
         \<and> emissions ops t2 sp offs2 ! child_index ops t2 sp offs2 k
             = Vertical t2 offs2 (children t2 ! k) (assigned_offsets ops t2 sp offs2 k)
         \<and> (n s1 + child_index ops t1 sp offs1 k < length (rectangles s1) \<longrightarrow>
              rectangles (outcome_state (generate_dendro ops s1 t1 sp offs1))
                  ! (n s1 + child_index ops t1 sp offs1 k)
                = vertical_segment ops offs1 (assigned_offsets ops t1 sp offs1 k) sp
                    (fl_mul ops (COLS_R (node_value t1)) (scale s1),
                     fl_mul ops (COLS_R (node_value (children t1 ! k))) (scale s1)))
         \<and> (n s2 + child_index ops t2 sp offs2 k < length (rectangles s2) \<longrightarrow>
              rectangles (outcome_state (generate_dendro ops s2 t2 sp offs2))
                  ! (n s2 + child_index ops t2 sp offs2 k)
                = vertical_segment ops offs2 (assigned_offsets ops t2 sp offs2 k) sp
                    (fl_mul ops (COLS_R (node_value t2)) (scale s2),
                     fl_mul ops (COLS_R (node_value (children t2 ! k))) (scale s2)))
         \<and> fst (assigned_offsets exact_ops t1 sp offs1 k)
             = fst offs1
               + fst sp
                 * (real (sum_list (map n_terminations (take k (children t1))))
                    + real (n_terminations (children t1 ! k)) / 2
                    - real (sum_list (map n_terminations (children t1))) / 2)"
proof -
  from assms(4) have "length (children t2) = length (children t1)" by (metis length_map)
  with assms(3) have k2: "k < length (children t2)" by simp
  note i1 = child_index_emission [OF assms(3), of ops sp offs1]
  note i2 = child_index_emission [OF k2, of ops sp offs2]
  have b1: "rectangles (outcome_state (generate_dendro ops s1 t1 sp offs1))
                  ! (n s1 + child_index ops t1 sp offs1 k)
                = vertical_segment ops offs1 (assigned_offsets ops t1 sp offs1 k) sp
                    (fl_mul ops (COLS_R (node_value t1)) (scale s1),
                     fl_mul ops (COLS_R (node_value (children t1 ! k))) (scale s1))"
    if "n s1 + child_index ops t1 sp offs1 k < length (rectangles s1)"
    using generate_dendro_buffer [OF assms(1) i1(1) that] by (simp add: i1(2))
  have b2: "rectangles (outcome_state (generate_dendro ops s2 t2 sp offs2))
                  ! (n s2 + child_index ops t2 sp offs2 k)
                = vertical_segment ops offs2 (assigned_offsets ops t2 sp offs2 k) sp
                    (fl_mul ops (COLS_R (node_value t2)) (scale s2),
                     fl_mul ops (COLS_R (node_value (children t2 ! k))) (scale s2))"
    if "n s2 + child_index ops t2 sp offs2 k < length (rectangles s2)"
    using generate_dendro_buffer [OF assms(2) i2(1) that] by (simp add: i2(2))
  from assigned_offsets_same_x [OF assms(3,4,5), of ops sp] i1 i2 b1 b2
    assigned_offsets_x [OF assms(3), of sp offs1]
  show ?thesis by blast
qed

text \<open>
  The second child (index 1) of \<open>bifurcation_tree\<close> and of \<open>sibling_variant_tree\<close>, whose
  first children differ in structure but have one termination each: it is assigned the
  x-offset 20 in both, and its vertical polygon is stored at index 2 of the first buffer
  and at index 3 of the second.
\<close>

theorem C9_child_x_offset_witness:
  "(1 :: nat) < length (children bifurcation_tree)
   \<and> map n_terminations (children sibling_variant_tree)
       = map n_terminations (children bifurcation_tree)
   \<and> children sibling_variant_tree \<noteq> children bifurcation_tree
   \<and> child_index exact_ops bifurcation_tree (40, 0) (0, 0) 1 = 2
   \<and> child_index exact_ops sibling_variant_tree (40, 0) (0, 0) 1 = 3
   \<and> fst (assigned_offsets exact_ops sibling_variant_tree (40, 0) (0, 0) 1)
       = fst (assigned_offsets exact_ops bifurcation_tree (40, 0) (0, 0) 1)
   \<and> fst (assigned_offsets exact_ops bifurcation_tree (40, 0) (0, 0) 1) = 20
   \<and> rectangles (outcome_state
        (generate_dendro exact_ops (Dendrogram_init (TreeObj bifurcation_tree))
           bifurcation_tree (40, 0) (0, 0))) ! 2
       = [(18, 0), (19, 1), (21, 1), (22, 0)]
   \<and> rectangles (outcome_state
        (generate_dendro exact_ops (Dendrogram_init (TreeObj sibling_variant_tree))
           sibling_variant_tree (40, 0) (0, 0))) ! 3
       = [(18, 0), (19, 1), (21, 1), (22, 0)]"
proof -
  let ?D1 = "Dendrogram_init (TreeObj bifurcation_tree)"
  let ?D2 = "Dendrogram_init (TreeObj sibling_variant_tree)"
  have i1: "n ?D1 \<le> length (rectangles ?D1)" and i2: "n ?D2 \<le> length (rectangles ?D2)"
    by (simp_all add: init_simps)
  have l1: "length (rectangles ?D1) = 4" and l2: "length (rectangles ?D2) = 5"
    by (simp_all add: init_simps bifurcation_tree_def sibling_variant_tree_def
        total_rectangles_def)
  have k: "(1 :: nat) < length (children bifurcation_tree)"
    by (simp add: bifurcation_tree_def)
  have m: "map n_terminations (children sibling_variant_tree)
             = map n_terminations (children bifurcation_tree)"
    by (simp add: bifurcation_tree_def sibling_variant_tree_def)
  have d: "children sibling_variant_tree \<noteq> children bifurcation_tree"
    by (simp add: bifurcation_tree_def sibling_variant_tree_def)
  have o: "fst (0 :: real, 0 :: real) = fst (0 :: real, 0 :: real)" by simp
  have c1: "child_index exact_ops bifurcation_tree (40, 0) (0, 0) 1 = 2"
    by (simp add: child_index_def bifurcation_tree_def emissions.simps dendro_eval_simps)
  have c2: "child_index exact_ops sibling_variant_tree (40, 0) (0, 0) 1 = 3"
    by (simp add: child_index_def sibling_variant_tree_def emissions.simps dendro_eval_simps)
  have a: "assigned_offsets exact_ops bifurcation_tree (40, 0) (0, 0) 1 = (20, 1)"
    "assigned_offsets exact_ops sibling_variant_tree (40, 0) (0, 0) 1 = (20, 1)"
    by (simp_all add: assigned_offsets_def child_start_x_def bifurcation_tree_def
        sibling_variant_tree_def dendro_eval_simps)
  have v: "node_value bifurcation_tree = sample 0 0 0 2"
    "node_value sibling_variant_tree = sample 0 0 0 2"
    "node_value (children bifurcation_tree ! 1) = sample 0 1 0 1"
    "node_value (children sibling_variant_tree ! 1) = sample 0 1 0 1"
    by (simp_all add: bifurcation_tree_def sibling_variant_tree_def)
  note inst = C9_child_x_offset [OF i1 i2 k m o, of exact_ops "(40, 0)"]
  from inst have 1: "fst (assigned_offsets exact_ops sibling_variant_tree (40, 0) (0, 0) 1)
       = fst (assigned_offsets exact_ops bifurcation_tree (40, 0) (0, 0) 1)"
    by blast
  from inst c1 a v have 2: "rectangles (outcome_state
        (generate_dendro exact_ops ?D1 bifurcation_tree (40, 0) (0, 0))) ! 2
       = [(18, 0), (19, 1), (21, 1), (22, 0)]"
    by (simp add: l1 init_simps(1,2) sample_def vertical_segment_def exact_ops_simps(1-4))
  from inst c2 a v have 3: "rectangles (outcome_state
        (generate_dendro exact_ops ?D2 sibling_variant_tree (40, 0) (0, 0))) ! 3
       = [(18, 0), (19, 1), (21, 1), (22, 0)]"
    by (simp add: l2 init_simps(1,2) sample_def vertical_segment_def exact_ops_simps(1-4))
  from a have 4: "fst (assigned_offsets exact_ops bifurcation_tree (40, 0) (0, 0) 1) = 20"
    by simp
  from k m d c1 c2 1 4 2 3 show ?thesis by blast
qed

text \<open>
  C9 as stated fails: the first child of \<open>bifurcation_tree\<close> and of \<open>uneven_tree\<close> is the
  same leaf (one termination) and both parents are at x-offset 0, but the child is placed
  at \<open>-20\<close> in the first tree and at \<open>-40\<close> in the second, where its sibling has two
  terminations instead of one; the first polygons of the two generated buffers differ
  accordingly.
\<close>

theorem C9_counterexample:
  "children bifurcation_tree ! 0 = children uneven_tree ! 0
   \<and> n_terminations (children bifurcation_tree ! 0) = n_terminations (children uneven_tree ! 0)
   \<and> fst (assigned_offsets exact_ops bifurcation_tree (40, 0) (0, 0) 0) = - 20
   \<and> fst (assigned_offsets exact_ops uneven_tree (40, 0) (0, 0) 0) = - 40
   \<and> \<not> isl (generate exact_ops (Dendrogram_init (TreeObj bifurcation_tree)))
   \<and> rectangles (outcome_state (generate exact_ops (Dendrogram_init (TreeObj bifurcation_tree)))) ! 0
       = [(- 22, 0), (- 21, 1), (- 19, 1), (- 18, 0)]
   \<and> \<not> isl (generate exact_ops (Dendrogram_init (TreeObj uneven_tree)))
   \<and> rectangles (outcome_state (generate exact_ops (Dendrogram_init (TreeObj uneven_tree)))) ! 0
       = [(- 42, 0), (- 41, 1), (- 39, 1), (- 38, 0)]"
proof -
  have 1: "children bifurcation_tree ! 0 = children uneven_tree ! 0"
    by (simp add: bifurcation_tree_def uneven_tree_def)
  have 2: "fst (assigned_offsets exact_ops bifurcation_tree (40, 0) (0, 0) 0) = - 20"
    by (simp add: bifurcation_tree_def assigned_offsets_def child_start_x_def dendro_eval_simps)
  have 3: "fst (assigned_offsets exact_ops uneven_tree (40, 0) (0, 0) 0) = - 40"
    by (simp add: uneven_tree_def assigned_offsets_def child_start_x_def dendro_eval_simps)
  have 4: "\<not> isl (generate exact_ops (Dendrogram_init (TreeObj bifurcation_tree)))"
    "rectangles (outcome_state (generate exact_ops (Dendrogram_init (TreeObj bifurcation_tree)))) ! 0
       = [(- 22, 0), (- 21, 1), (- 19, 1), (- 18, 0)]"
    by (simp_all add: bifurcation_tree_def dendro_run_simps)
  have 5: "\<not> isl (generate exact_ops (Dendrogram_init (TreeObj uneven_tree)))"
    "rectangles (outcome_state (generate exact_ops (Dendrogram_init (TreeObj uneven_tree)))) ! 0
       = [(- 42, 0), (- 41, 1), (- 39, 1), (- 38, 0)]"
    by (simp_all add: uneven_tree_def dendro_run_simps)
  from 1 2 3 4 5 show ?thesis by simp
qed

subsection \<open>Trees with at most two children\<close>

text \<open>
  On a tree whose nodes have at most two children the number of polygons of a run is the
  size of the buffer (without rounding, and with a horizontal spacing other than zero), so
  that \<^verbatim>\<open>generate\<close> returns with the write index at the end of the buffer.
\<close>

lemma total_rectangles_simps:
  "total_rectangles (Tree v []) = 0"
  "total_rectangles (Tree v [c]) = 1 + total_rectangles c"
  "total_rectangles (Tree v [c1, c2]) = 4 + total_rectangles c1 + total_rectangles c2"
  by (simp_all add: total_rectangles_def)

lemma emissions_Tree:
  "emissions ops (Tree v cs) sp offs
     = emissions_loop ops (Tree v cs) sp offs
         (snd (spacingx ops (Tree v cs) (0, 0) (fst offs) (fst sp))) cs"
  by (simp add: emissions.simps)

lemma emissions_binary:
  assumes "binary t" and "fst sp \<noteq> 0"
  shows "length (emissions exact_ops t sp offs) = total_rectangles t"
  using assms(1)
proof (induction t arbitrary: offs)
  case (Tree v cs)
  from Tree.prems have len: "length cs \<le> 2" and bin: "\<And>c. c \<in> set cs \<Longrightarrow> binary c"
    by simp_all
  from len consider "cs = []" | c where "cs = [c]" | c1 c2 where "cs = [c1, c2]"
    by (cases cs rule: list.exhaust [case_names Nil Cons])
      (auto simp: length_Suc_conv le_Suc_eq numeral_2_eq_2)
  then show ?case
  proof cases
    case 1
    then show ?thesis by (simp add: emissions_Tree total_rectangles_simps)
  next
    case 2
    have ih: "length (emissions exact_ops c sp offs') = total_rectangles c" for offs'
      using Tree.IH [of c offs'] bin [of c] 2 by simp
    show ?thesis
      unfolding 2 total_rectangles_simps
      by (simp add: emissions_Tree child_offsets_def update_offsets_def spacingx_def Let_def
          exact_ops_simps(1-4) ih)
  next
    case 3
    have ih1: "length (emissions exact_ops c1 sp offs') = total_rectangles c1" for offs'
      using Tree.IH [of c1 offs'] bin [of c1] 3 by simp
    have ih2: "length (emissions exact_ops c2 sp offs') = total_rectangles c2" for offs'
      using Tree.IH [of c2 offs'] bin [of c2] 3 by simp
    have p1: "real (n_terminations c1) \<noteq> 0" and p2: "real (n_terminations c2) \<noteq> 0"
      using n_terminations_pos [of c1] n_terminations_pos [of c2] by simp_all
    have x1: "fst offs \<noteq> fst offs - (real (n_terminations c1) + real (n_terminations c2)) * fst sp / 2
                + fst sp * real (n_terminations c1) / 2"
    proof
      assume "fst offs = fst offs - (real (n_terminations c1) + real (n_terminations c2)) * fst sp / 2
                + fst sp * real (n_terminations c1) / 2"
      then have "real (n_terminations c2) * fst sp = 0" by (simp add: algebra_simps)
      with p2 assms(2) show False by simp
    qed
    have x2: "fst offs \<noteq> fst offs - (real (n_terminations c1) + real (n_terminations c2)) * fst sp / 2
                + real (n_terminations c1) * fst sp
                + fst sp * real (n_terminations c2) / 2"
    proof
      assume "fst offs = fst offs - (real (n_terminations c1) + real (n_terminations c2)) * fst sp / 2
                + real (n_terminations c1) * fst sp
                + fst sp * real (n_terminations c2) / 2"
      then have "real (n_terminations c1) * fst sp = 0" by (simp add: algebra_simps)
      with p1 assms(2) show False by simp
    qed
    show ?thesis
      unfolding 3 total_rectangles_simps
      using x1 x2
      by (simp add: emissions_Tree child_offsets_def update_offsets_def spacingx_def Let_def
          exact_ops_simps(1-4) ih1 ih2)
  qed
qed

lemma generate_fills_buffer_binary:
  assumes "binary t"
  shows "\<exists>s'. generate exact_ops (Dendrogram_init (TreeObj t)) = Inr s'
              \<and> n s' = length (rectangles s')
              \<and> length (rectangles s') = n_segments t + 2 * n_bifurcations t"
proof -
  let ?D = "Dendrogram_init (TreeObj t)"
  have inv: "n ?D \<le> length (rectangles ?D)" by (simp add: Dendrogram_init_def)
  have e: "length (emissions exact_ops t (40, 0) (0, 0)) = total_rectangles t"
    by (rule emissions_binary [OF assms]) simp
  have l: "length (rectangles ?D) = total_rectangles t" "n ?D = 0"
    by (simp_all add: Dendrogram_init_def)
  from generate_dendro_isl [OF inv, of exact_ops t "(40, 0)" "(0, 0)"]
  have "\<not> isl (generate_dendro exact_ops ?D t (40, 0) (0, 0))" by (simp add: e l)
  then obtain s1 where g: "generate_dendro exact_ops ?D t (40, 0) (0, 0) = Inr s1"
    by (cases "generate_dendro exact_ops ?D t (40, 0) (0, 0)") simp_all
  from generate_dendro_n [OF inv, of exact_ops t "(40, 0)" "(0, 0)"] g
  have n1: "n s1 = total_rectangles t" by (simp add: e l)
  from generate_dendro_stores [OF inv, of exact_ops "(40, 0)" t "(0, 0)"] g
  have l1: "length (rectangles s1) = total_rectangles t"
    by (simp add: stores_def wrote_def l)
  from g have "generate exact_ops ?D = Inr (s1\<lparr>trees := [rectangles s1]\<rparr>)"
    by (simp add: generate_def Dendrogram_init_def)
  with n1 l1 show ?thesis
    by (simp add: total_rectangles_def)
qed

section \<open>Morphology checks: results\<close>

subsection \<open>Two roundings\<close>

lemma floor_log2:
  assumes "2 powr of_int e \<le> x" and "x < 2 powr of_int (e + 1)"
  shows "\<lfloor>log 2 x\<rfloor> = e"
proof -
  have pos: "0 < x" using assms(1) powr_gt_zero [of 2 "of_int e"] by linarith
  have "of_int e \<le> log 2 x" using assms(1) pos by (simp add: le_log_iff)
  moreover have "log 2 x < of_int (e + 1)" using assms(2) pos by (simp add: log_less_iff)
  ultimately show ?thesis by (simp add: floor_eq_iff)
qed

lemma binary64_sum: "binary64 (literal_0_3 + literal_0_1) = literal_0_4"
proof -
  have x: "literal_0_3 + literal_0_1 = 14411518807585587 / 36028797018963968"
    by (simp add: literal_0_3_def literal_0_1_def)
  have p2: "(2 :: real) powr of_int (- 2) = 1 / 4" "(2 :: real) powr of_int (- 2 + 1) = 1 / 2"
    "(2 :: real) powr of_int (- 2 - 52) = 1 / 18014398509481984"
    by (simp_all add: powr_minus_divide powr_numeral)
  have e: "\<lfloor>log 2 \<bar>14411518807585587 / 36028797018963968 :: real\<bar>\<rfloor> = - 2"
  proof (rule floor_log2)
    show "2 powr of_int (- 2) \<le> \<bar>14411518807585587 / 36028797018963968 :: real\<bar>"
      unfolding p2 by simp
    show "\<bar>14411518807585587 / 36028797018963968 :: real\<bar> < 2 powr of_int (- 2 + 1)"
      unfolding p2 by simp
  qed
  have r: "round_half_even (14411518807585587 / 36028797018963968 / (1 / 18014398509481984))
             = 7205759403792794"
    by (simp add: round_half_even_def)
  show ?thesis
    unfolding x binary64_def e p2 r by (simp add: literal_0_4_def)
qed

lemma binary64_quotient: "binary64 (1 / 10) = literal_0_1"
proof -
  have p2: "(2 :: real) powr of_int (- 4) = 1 / 16" "(2 :: real) powr of_int (- 4 + 1) = 1 / 8"
    "(2 :: real) powr of_int (- 4 - 52) = 1 / 72057594037927936"
    by (simp_all add: powr_minus_divide powr_numeral)
  have e: "\<lfloor>log 2 \<bar>1 / 10 :: real\<bar>\<rfloor> = - 4"
  proof (rule floor_log2)
    show "2 powr of_int (- 4) \<le> \<bar>1 / 10 :: real\<bar>"
      unfolding p2 by simp
    show "\<bar>1 / 10 :: real\<bar> < 2 powr of_int (- 4 + 1)"
      unfolding p2 by simp
  qed
  have r: "round_half_even (1 / 10 / (1 / 72057594037927936)) = 7205759403792794"
    by (simp add: round_half_even_def)
  show ?thesis
    unfolding binary64_def e p2 r by (simp add: literal_0_1_def)
qed

subsection \<open>Monotonicity\<close>

lemma points_loop_iff:
  "points_loop ops tol sec idx
     \<longleftrightarrow> \<not> (\<exists>i \<in> set idx. COLS_R (sec ! (i + 1)) > fl_add ops (COLS_R (sec ! i)) tol)"
  by (induction idx) auto

lemma points_loop_range:
  "points_loop ops tol sec [0..<length sec - Suc 0]
     \<longleftrightarrow> \<not> (\<exists>i. Suc i < length sec \<and> COLS_R (sec ! Suc i) > fl_add ops (COLS_R (sec ! i)) tol)"
  by (auto simp: points_loop_iff)

lemma iter_nodes_parent:
  "(p, sec) \<in> set (iter_nodes par t)
     \<Longrightarrow> p = par \<or> (\<exists>pv. p = Some pv \<and> pv \<in> snd ` set (iter_nodes par t))"
proof (induction t arbitrary: par)
  case (Tree v cs)
  show ?case
  proof (cases "(p, sec) = (par, v)")
    case True
    then show ?thesis by simp
  next
    case False
    with Tree.prems obtain c where c: "c \<in> set cs" "(p, sec) \<in> set (iter_nodes (Some v) c)"
      by auto
    from Tree.IH [OF c] have "p = Some v \<or> (\<exists>pv. p = Some pv \<and> pv \<in> snd ` set (iter_nodes (Some v) c))" .
    then show ?thesis
    proof
      assume "p = Some v"
      then show ?thesis by force
    next
      assume "\<exists>pv. p = Some pv \<and> pv \<in> snd ` set (iter_nodes (Some v) c)"
      then obtain pv where pv: "p = Some pv" "pv \<in> snd ` set (iter_nodes (Some v) c)" by blast
      with c(1) have "pv \<in> snd ` set (iter_nodes par (Tree v cs))" by auto
      with pv(1) show ?thesis by blast
    qed
  qed
qed

lemma nodes_loop_no_error:
  "(\<And>p sec. (p, sec) \<in> set ns \<Longrightarrow> sec \<noteq> [] \<and> (\<forall>pv. p = Some pv \<longrightarrow> pv \<noteq> []))
     \<Longrightarrow> nodes_loop ops tol ns = Inr (\<not> (\<exists>pn \<in> set ns. violates ops tol pn))"
proof (induction ns)
  case Nil
  then show ?case by simp
next
  case (Cons a ns)
  obtain p sec where a: "a = (p, sec)" by (cases a)
  have ih: "nodes_loop ops tol ns = Inr (\<not> (\<exists>pn \<in> set ns. violates ops tol pn))"
  proof (rule Cons.IH)
    fix p sec
    assume "(p, sec) \<in> set ns"
    then show "sec \<noteq> [] \<and> (\<forall>pv. p = Some pv \<longrightarrow> pv \<noteq> [])"
      using Cons.prems [of p sec] by simp
  qed
  have ne: "sec \<noteq> []" "\<And>pv. p = Some pv \<Longrightarrow> pv \<noteq> []"
    using Cons.prems [of p sec] a by auto
  show ?case
  proof (cases p)
    case None
    then show ?thesis using a ih by (auto simp: points_loop_range violates_def)
  next
    case (Some pv)
    then show ?thesis using a ih ne by (auto simp: points_loop_range violates_def)
  qed
qed

text \<open>
  C4. On a tree in which no section is empty, and with any arithmetic, \<^verbatim>\<open>is_monotonic\<close>
  returns \<open>False\<close> exactly when some node violates the check (a radius greater than the
  sum, as the program computes it, of the previous radius and the tolerance, between two
  consecutive samples of its section or from the last sample of its parent to its first
  sample), and \<open>True\<close> otherwise; it raises nothing. A single-node tree has no parent
  check: whatever its section, the result is \<open>True\<close> exactly when no two consecutive
  samples of the section violate the check.
\<close>

theorem C4_is_monotonic_iff_no_violation:
  assumes "[] \<notin> set (sections neurite)"
  shows "is_monotonic ops neurite tol
           = Inr (\<not> (\<exists>pn \<in> set (iter_nodes None neurite). violates ops tol pn))
         \<and> is_monotonic ops (Tree sec []) tol
           = Inr (\<not> (\<exists>i. i + 1 < length sec
                          \<and> COLS_R (sec ! (i + 1)) > fl_add ops (COLS_R (sec ! i)) tol))"
proof
  show "is_monotonic ops neurite tol
          = Inr (\<not> (\<exists>pn \<in> set (iter_nodes None neurite). violates ops tol pn))"
    unfolding is_monotonic_def
  proof (rule nodes_loop_no_error)
    fix p sec
    assume m: "(p, sec) \<in> set (iter_nodes None neurite)"
    then have "sec \<in> set (sections neurite)" by (force simp: sections_def)
    with assms have 1: "sec \<noteq> []" by auto
    have 2: "pv \<noteq> []" if "p = Some pv" for pv
    proof -
      from iter_nodes_parent [OF m] that have "pv \<in> snd ` set (iter_nodes None neurite)"
        by auto
      then have "pv \<in> set (sections neurite)" by (simp add: sections_def)
      with assms show ?thesis by auto
    qed
    from 1 2 show "sec \<noteq> [] \<and> (\<forall>pv. p = Some pv \<longrightarrow> pv \<noteq> [])" by blast
  qed
  show "is_monotonic ops (Tree sec []) tol
          = Inr (\<not> (\<exists>i. i + 1 < length sec
                         \<and> COLS_R (sec ! (i + 1)) > fl_add ops (COLS_R (sec ! i)) tol))"
    by (simp add: is_monotonic_def points_loop_range)
qed

text \<open>
  The tapering tree passes and the bulging tree fails. With the radii \<^verbatim>\<open>0.3\<close>, \<^verbatim>\<open>0.4\<close> and
  the tolerance \<^verbatim>\<open>0.1\<close> the sum \<^verbatim>\<open>0.3 + 0.1\<close> rounds to the double \<^verbatim>\<open>0.4\<close>: with the
  arithmetic of doubles the check passes, although \<^verbatim>\<open>0.4\<close> exceeds the sum without
  rounding.
\<close>

theorem C4_is_monotonic_witness:
  "[] \<notin> set (sections tapering_tree)
   \<and> is_monotonic exact_ops tapering_tree 0 = Inr True
   \<and> \<not> (\<exists>pn \<in> set (iter_nodes None tapering_tree). violates exact_ops 0 pn)
   \<and> [] \<notin> set (sections bulging_tree)
   \<and> is_monotonic exact_ops bulging_tree 0 = Inr False
   \<and> (\<exists>pn \<in> set (iter_nodes None bulging_tree). violates exact_ops 0 pn)
   \<and> fl_add binary64_ops literal_0_3 literal_0_1 = literal_0_4
   \<and> is_monotonic binary64_ops rounding_tree literal_0_1 = Inr True
   \<and> literal_0_4 > fl_add exact_ops literal_0_3 literal_0_1
   \<and> is_monotonic exact_ops rounding_tree literal_0_1 = Inr False"
proof -
  have t: "[] \<notin> set (sections tapering_tree)"
    by (simp add: tapering_tree_def sections_def)
  have ra: "fl_add binary64_ops literal_0_3 literal_0_1 = literal_0_4"
    by (simp add: binary64_ops_def binary64_sum)
  have rb: "is_monotonic binary64_ops (Tree [sample 0 0 0 literal_0_3, sample 1 0 0 literal_0_4] [])
              literal_0_1 = Inr True"
    unfolding C4_is_monotonic_iff_no_violation [OF t, of binary64_ops literal_0_1
        "[sample 0 0 0 literal_0_3, sample 1 0 0 literal_0_4]", THEN conjunct2]
    by (simp add: less_Suc_eq sample_def ra)
  have rc: "literal_0_4 > fl_add exact_ops literal_0_3 literal_0_1"
    by (simp add: exact_ops_def literal_0_1_def literal_0_3_def literal_0_4_def)
  have rd: "is_monotonic exact_ops (Tree [sample 0 0 0 literal_0_3, sample 1 0 0 literal_0_4] [])
              literal_0_1 = Inr False"
    unfolding C4_is_monotonic_iff_no_violation [OF t, of exact_ops literal_0_1
        "[sample 0 0 0 literal_0_3, sample 1 0 0 literal_0_4]", THEN conjunct2]
    using rc by (auto simp: sample_def intro!: exI [of _ 0])
  have b: "[] \<notin> set (sections bulging_tree)"
    by (simp add: bulging_tree_def sections_def)
  have tv: "is_monotonic exact_ops tapering_tree 0 = Inr True"
    by (simp add: tapering_tree_def is_monotonic_def sample_def upt_rec exact_ops_def)
  have bv: "is_monotonic exact_ops bulging_tree 0 = Inr False"
    by (simp add: bulging_tree_def is_monotonic_def sample_def upt_rec exact_ops_def)
  from C4_is_monotonic_iff_no_violation [OF t, of exact_ops 0, THEN conjunct1] tv
  have 1: "\<not> (\<exists>pn \<in> set (iter_nodes None tapering_tree). violates exact_ops 0 pn)" by simp
  from C4_is_monotonic_iff_no_violation [OF b, of exact_ops 0, THEN conjunct1] bv
  have 2: "\<exists>pn \<in> set (iter_nodes None bulging_tree). violates exact_ops 0 pn" by simp
  from t b tv bv 1 2 ra rb rc rd show ?thesis by (simp add: rounding_tree_def)
qed

subsection \<open>Flatness\<close>

text \<open>
  C5. With the method \<^verbatim>\<open>'ratio'\<close>, when there are at least two extents and the second
  smallest is not zero, \<^verbatim>\<open>is_flat\<close> returns whether the quotient, as the program computes
  it, of the smallest extent by the second smallest (after sorting ascending) is strictly
  below the tolerance.
\<close>

theorem C5_is_flat_ratio:
  assumes "2 \<le> length (pde (map coords (points neurite)))"
    and "sort (pde (map coords (points neurite))) ! 1 \<noteq> 0"
  shows "is_flat ops pde points neurite tol ''ratio''
           = Inr (fl_div ops (sort (pde (map coords (points neurite))) ! 0)
                    (sort (pde (map coords (points neurite))) ! 1) < tol)"
  using assms by (simp add: is_flat_def ratio_less_def Let_def)

text \<open>
  The extents \<open>(3, 1, 2)\<close> have the ratio \<open>1 / 2\<close>: flat for the tolerance 0.6 and not for
  0.4. With the extents \<open>(1, 10, 20)\<close> and the tolerance \<^verbatim>\<open>0.1\<close> the quotient \<^verbatim>\<open>1 / 10\<close> rounds
  to the double \<^verbatim>\<open>0.1\<close>, which is not below the tolerance: with the arithmetic of doubles
  the result is \<open>False\<close>, although the quotient without rounding is below the double
  \<^verbatim>\<open>0.1\<close>.
\<close>

theorem C5_is_flat_ratio_witness:
  "2 \<le> length ((\<lambda>ps. [3, 1, 2 :: real]) (map coords ((\<lambda>u. []) ())))
   \<and> sort [3, 1, 2 :: real] ! 1 = 2
   \<and> fl_div exact_ops (sort [3, 1, 2 :: real] ! 0) (sort [3, 1, 2 :: real] ! 1) = 1 / 2
   \<and> is_flat exact_ops (\<lambda>ps. [3, 1, 2]) (\<lambda>u. []) () (6 / 10) ''ratio'' = Inr True
   \<and> is_flat exact_ops (\<lambda>ps. [3, 1, 2]) (\<lambda>u. []) () (4 / 10) ''ratio'' = Inr False
   \<and> fl_div binary64_ops 1 10 = literal_0_1
   \<and> is_flat binary64_ops (\<lambda>ps. [1, 10, 20]) (\<lambda>u. []) () literal_0_1 ''ratio'' = Inr False
   \<and> fl_div exact_ops 1 10 < literal_0_1
   \<and> is_flat exact_ops (\<lambda>ps. [1, 10, 20]) (\<lambda>u. []) () literal_0_1 ''ratio'' = Inr True"
proof -
  have l': "2 \<le> length ((\<lambda>ps. [1, 10, 20 :: real]) (map coords ((\<lambda>u. []) ())))" by simp
  have z': "sort ((\<lambda>ps. [1, 10, 20 :: real]) (map coords ((\<lambda>u. []) ()))) ! 1 \<noteq> 0"
    by simp
  have qa: "fl_div binary64_ops 1 10 = literal_0_1"
    by (simp add: binary64_ops_def binary64_quotient)
  have qc: "fl_div exact_ops 1 10 < literal_0_1"
    by (simp add: exact_ops_def literal_0_1_def)
  from C5_is_flat_ratio [of "\<lambda>ps. [1, 10, 20]" "\<lambda>u. []" "()" binary64_ops literal_0_1, OF l' z'] qa
  have qb: "is_flat binary64_ops (\<lambda>ps. [1, 10, 20]) (\<lambda>u. []) () literal_0_1 ''ratio'' = Inr False"
    by simp
  from C5_is_flat_ratio [of "\<lambda>ps. [1, 10, 20]" "\<lambda>u. []" "()" exact_ops literal_0_1, OF l' z'] qc
  have qd: "is_flat exact_ops (\<lambda>ps. [1, 10, 20]) (\<lambda>u. []) () literal_0_1 ''ratio'' = Inr True"
    by simp
  have l: "2 \<le> length ((\<lambda>ps. [3, 1, 2 :: real]) (map coords ((\<lambda>u. []) ())))" by simp
  have s: "sort [3, 1, 2 :: real] = [1, 2, 3]" by simp
  have z: "sort ((\<lambda>ps. [3, 1, 2 :: real]) (map coords ((\<lambda>u. []) ()))) ! 1 \<noteq> 0"
    by simp
  from C5_is_flat_ratio [of "\<lambda>ps. [3, 1, 2]" "\<lambda>u. []" "()" exact_ops "6 / 10", OF l z]
  have 1: "is_flat exact_ops (\<lambda>ps. [3, 1, 2]) (\<lambda>u. []) () (6 / 10) ''ratio'' = Inr True"
    by (simp add: exact_ops_def)
  from C5_is_flat_ratio [of "\<lambda>ps. [3, 1, 2]" "\<lambda>u. []" "()" exact_ops "4 / 10", OF l z]
  have 2: "is_flat exact_ops (\<lambda>ps. [3, 1, 2]) (\<lambda>u. []) () (4 / 10) ''ratio'' = Inr False"
    by (simp add: exact_ops_def)
  have r: "fl_div exact_ops (sort [3, 1, 2 :: real] ! 0) (sort [3, 1, 2 :: real] ! 1) = 1 / 2"
    by (simp add: exact_ops_def)
  from l s r 1 2 qa qb qc qd show ?thesis by simp
qed

text \<open>
  C6. With any method other than \<^verbatim>\<open>'ratio'\<close>, \<^verbatim>\<open>is_flat\<close> returns whether some extent is
  strictly below the tolerance, which is also its result for the method \<^verbatim>\<open>'tolerance'\<close>;
  no arithmetic is involved.
\<close>

theorem C6_is_flat_tolerance_fallback:
  assumes "method \<noteq> ''ratio''"
  shows "is_flat ops pde points neurite tol method
           = Inr (\<exists>e \<in> set (pde (map coords (points neurite))). e < tol)
         \<and> is_flat ops pde points neurite tol method
           = is_flat ops pde points neurite tol ''tolerance''"
  using assms by (simp add: is_flat_def Let_def list_ex_iff)

text \<open>
  The method \<^verbatim>\<open>'garbage'\<close> on extents with and without one below the tolerance.
\<close>

theorem C6_is_flat_tolerance_fallback_witness:
  "''garbage'' \<noteq> ''ratio''
   \<and> is_flat exact_ops (\<lambda>ps. [10, 10, 1 / 1000]) (\<lambda>u. []) () (1 / 100) ''garbage'' = Inr True
   \<and> is_flat exact_ops (\<lambda>ps. [10, 10, 10]) (\<lambda>u. []) () (1 / 100) ''garbage'' = Inr False
   \<and> is_flat exact_ops (\<lambda>ps. [10, 10, 1 / 1000]) (\<lambda>u. []) () (1 / 100) ''garbage''
       = is_flat exact_ops (\<lambda>ps. [10, 10, 1 / 1000]) (\<lambda>u. []) () (1 / 100) ''tolerance''"
proof -
  have g: "''garbage'' \<noteq> ''ratio''" by simp
  have a: "\<exists>e \<in> set [10, 10, 1 / 1000 :: real]. e < 1 / 100"
    by (rule bexI [of _ "1 / 1000"]) simp_all
  have b: "\<not> (\<exists>e \<in> set [10, 10, 10 :: real]. e < 1 / 100)"
    by simp
  note flat =
    C6_is_flat_tolerance_fallback [OF g, of exact_ops "\<lambda>ps. [10, 10, 1 / 1000]" "\<lambda>u. []" "()" "1 / 100"]
  note full =
    C6_is_flat_tolerance_fallback [OF g, of exact_ops "\<lambda>ps. [10, 10, 10]" "\<lambda>u. []" "()" "1 / 100"]
  from flat [THEN conjunct1]
  have 1: "is_flat exact_ops (\<lambda>ps. [10, 10, 1 / 1000]) (\<lambda>u. []) () (1 / 100) ''garbage'' = Inr True"
    by (simp only: a)
  from flat [THEN conjunct2]
  have 3: "is_flat exact_ops (\<lambda>ps. [10, 10, 1 / 1000]) (\<lambda>u. []) () (1 / 100) ''garbage''
              = is_flat exact_ops (\<lambda>ps. [10, 10, 1 / 1000]) (\<lambda>u. []) () (1 / 100) ''tolerance''" .
  from full [THEN conjunct1]
  have 2: "is_flat exact_ops (\<lambda>ps. [10, 10, 10]) (\<lambda>u. []) () (1 / 100) ''garbage'' = Inr False"
    by (simp only: b)
  from g 1 2 3 show ?thesis by blast
qed

section \<open>Back-tracking: results\<close>

lemma seg2_loop_iff:
  "seg2_loop ops seg1 xs \<longleftrightarrow> (\<exists>seg2 \<in> set xs. is_inside_cylinder ops seg1 seg2)"
  by (induction xs) auto

lemma seg1_loop_iff:
  "seg1_loop ops sp es \<longleftrightarrow> (\<exists>(i, seg1) \<in> set es. seg2_loop ops seg1 (take (i + 1) sp))"
  by (induction ops sp es rule: seg1_loop.induct) auto

lemma seg1_loop_enumerate:
  "seg1_loop ops sp (enumerate 0 (tl sp))
     \<longleftrightarrow> (\<exists>a b. b < a \<and> a < length sp \<and> is_inside_cylinder ops (sp ! a) (sp ! b))"
  (is "?L \<longleftrightarrow> ?R")
proof
  assume ?L
  then obtain i seg1 where m: "(i, seg1) \<in> set (enumerate 0 (tl sp))"
    and l: "seg2_loop ops seg1 (take (i + 1) sp)"
    by (auto simp: seg1_loop_iff)
  from m have i: "i < length (tl sp)" and s: "seg1 = tl sp ! i"
    by (auto simp: in_set_enumerate_eq)
  from i have i': "Suc i < length sp" by simp
  from s i have s': "seg1 = sp ! Suc i" by (simp add: nth_tl)
  from l obtain seg2 where "seg2 \<in> set (take (i + 1) sp)" "is_inside_cylinder ops seg1 seg2"
    by (auto simp: seg2_loop_iff)
  then obtain b where "b < length (take (i + 1) sp)" "take (i + 1) sp ! b = seg2"
    by (auto simp: in_set_conv_nth)
  with i' have "b < Suc i" "sp ! b = seg2" by auto
  with s' i' \<open>is_inside_cylinder ops seg1 seg2\<close> show ?R by blast
next
  assume ?R
  then obtain a b where ab: "b < a" "a < length sp" "is_inside_cylinder ops (sp ! a) (sp ! b)"
    by blast
  then obtain i where a: "a = Suc i" by (cases a) auto
  with ab have i: "i < length (tl sp)" by simp
  then have m: "(i, sp ! a) \<in> set (enumerate 0 (tl sp))"
    using a by (simp add: in_set_enumerate_eq nth_tl)
  from ab a have "sp ! b \<in> set (take (i + 1) sp)"
    by (auto simp: in_set_conv_nth intro!: exI [of _ b])
  with ab have "seg2_loop ops (sp ! a) (take (i + 1) sp)"
    by (auto simp: seg2_loop_iff)
  with m show ?L by (auto simp: seg1_loop_iff)
qed

lemma sorted_wrt_filter_iff:
  "sorted_wrt R (filter P xs) \<longleftrightarrow> sorted_wrt (\<lambda>x y. P x \<and> P y \<longrightarrow> R x y) xs"
  by (induction xs) auto

lemma later_earlier_filter:
  "(\<exists>a b. b < a \<and> a < length (filter P xs) \<and> Q (filter P xs ! a) (filter P xs ! b))
     \<longleftrightarrow> (\<exists>i j. j < i \<and> i < length xs \<and> P (xs ! j) \<and> P (xs ! i) \<and> Q (xs ! i) (xs ! j))"
proof -
  have "(\<exists>a b. b < a \<and> a < length (filter P xs) \<and> Q (filter P xs ! a) (filter P xs ! b))
          \<longleftrightarrow> \<not> sorted_wrt (\<lambda>y z. \<not> Q z y) (filter P xs)"
    by (auto simp: sorted_wrt_iff_nth_less)
  also have "\<dots> \<longleftrightarrow> \<not> sorted_wrt (\<lambda>x y. P x \<and> P y \<longrightarrow> \<not> Q y x) xs"
    by (simp add: sorted_wrt_filter_iff)
  also have "\<dots> \<longleftrightarrow> (\<exists>i j. j < i \<and> i < length xs \<and> P (xs ! j) \<and> P (xs ! i) \<and> Q (xs ! i) (xs ! j))"
    by (auto simp: sorted_wrt_iff_nth_less)
  finally show ?thesis .
qed

lemma snode_step:
  "seg1_loop ops (filter (is_not_zero_seg ops) sp)
       (enumerate 0 (tl (filter (is_not_zero_seg ops) sp)))
     \<longleftrightarrow> (\<exists>i j. j < i \<and> i < length sp
           \<and> is_not_zero_seg ops (sp ! j) \<and> is_not_zero_seg ops (sp ! i)
           \<and> is_inside_cylinder ops (sp ! i) (sp ! j))"
  by (simp only: seg1_loop_enumerate later_earlier_filter)

lemma snode_loop_iff:
  "snode_loop ops vs \<longleftrightarrow>
     (\<exists>sec \<in> set vs. \<exists>i j. j < i \<and> i < length (pair sec)
        \<and> is_not_zero_seg ops (pair sec ! j) \<and> is_not_zero_seg ops (pair sec ! i)
        \<and> is_inside_cylinder ops (pair sec ! i) (pair sec ! j))"
proof (induction vs)
  case Nil
  show ?case by simp
next
  case (Cons v vs)
  have "snode_loop ops (v # vs) \<longleftrightarrow>
          seg1_loop ops (filter (is_not_zero_seg ops) (pair v))
            (enumerate 0 (tl (filter (is_not_zero_seg ops) (pair v)))) \<or> snode_loop ops vs"
    by (simp add: Let_def)
  then show ?case
    unfolding snode_step Cons.IH by (simp only: list.set bex_simps)
qed

lemma length_pair: "length (pair sec) = length sec - 1"
  by (simp add: pair_def)

lemma nth_pair: "i < length sec - 1 \<Longrightarrow> pair sec ! i = (sec ! i, sec ! Suc i)"
  by (simp add: pair_def nth_tl)

lemma is_inside_cylinder_spec:
  "is_inside_cylinder ops seg_i seg_j = spec_overlap ops seg_i seg_j"
  by (auto simp: is_inside_cylinder_def spec_overlap_def is_in_the_same_verse_def
      is_seg1_overlapping_with_seg2_def is_seg2_within_seg1_radius_def Let_def direction_def)

text \<open>
  C2 (as amended). With any arithmetic, \<^verbatim>\<open>is_back_tracking\<close> returns \<open>True\<close> exactly when
  some section with more than 2 sample points has an earlier segment \<open>j\<close> and a later
  segment \<open>i\<close>, both kept by the filter \<^verbatim>\<open>is_not_zero_seg\<close> (their endpoints are not close
  in the sense of \<^verbatim>\<open>np.allclose\<close>), that satisfy the overlap condition of the
  specification computed in the program's arithmetic: clearance at most the sum of the
  maximal radii, projection shorter than the product of the double \<^verbatim>\<open>0.55\<close> and the length
  of segment \<open>j\<close>, and directions whose dot product is not non-negative. The loops return
  at the first such pair and \<open>False\<close> after all nodes and pairs.
\<close>

theorem C2_is_back_tracking_iff:
  "is_back_tracking ops neurite \<longleftrightarrow>
     (\<exists>sec \<in> set (sections neurite). length sec > 2 \<and>
        (\<exists>i j. j < i \<and> i + 1 < length sec
           \<and> is_not_zero_seg ops (sec ! j, sec ! (j + 1))
           \<and> is_not_zero_seg ops (sec ! i, sec ! (i + 1))
           \<and> spec_overlap ops (sec ! i, sec ! (i + 1)) (sec ! j, sec ! (j + 1))))"
  (is "?L \<longleftrightarrow> ?R")
proof
  assume ?L
  then obtain sec i j where sec: "sec \<in> set (sections neurite)" "length sec > 2"
    and ij: "j < i" "i < length (pair sec)"
    and z: "is_not_zero_seg ops (pair sec ! j)" "is_not_zero_seg ops (pair sec ! i)"
    and c: "is_inside_cylinder ops (pair sec ! i) (pair sec ! j)"
    by (auto simp: is_back_tracking_def snode_loop_iff)
  from ij have r: "i < length sec - 1" "j < length sec - 1" by (simp_all add: length_pair)
  from z c show ?R
    unfolding nth_pair [OF r(1)] nth_pair [OF r(2)] is_inside_cylinder_spec
    using sec ij r by (intro bexI [of _ sec] conjI exI [of _ i] exI [of _ j]) auto
next
  assume ?R
  then obtain sec i j where sec: "sec \<in> set (sections neurite)" "length sec > 2"
    and ij: "j < i" "i + 1 < length sec"
    and z: "is_not_zero_seg ops (sec ! j, sec ! (j + 1))"
      "is_not_zero_seg ops (sec ! i, sec ! (i + 1))"
    and c: "spec_overlap ops (sec ! i, sec ! (i + 1)) (sec ! j, sec ! (j + 1))"
    by blast
  from ij have r: "i < length sec - 1" "j < length sec - 1" by simp_all
  have "is_not_zero_seg ops (pair sec ! j)" "is_not_zero_seg ops (pair sec ! i)"
    "is_inside_cylinder ops (pair sec ! i) (pair sec ! j)" "i < length (pair sec)"
    using z c r by (simp_all add: nth_pair is_inside_cylinder_spec length_pair)
  with sec ij show ?L
    unfolding is_back_tracking_def snode_loop_iff
    by (intro bexI [of _ sec] exI [of _ i] exI [of _ j]) simp_all
qed

lemma exact_norm_x: "np_linalg_norm exact_ops (a, 0, 0) = \<bar>a\<bar>"
  by (simp add: exact_ops_def)

lemma euclidean_length_norm:
  "euclidean_length seg = np_linalg_norm exact_ops (direction exact_ops seg)"
  by (simp add: euclidean_length_def exact_ops_def direction_def coords_def power2_eq_square)

lemmas back_tracking_eval_simps =
  sample_def sections_def is_back_tracking_def pair_def is_not_zero_seg_def coords_def
  isclose_def is_inside_cylinder_def is_in_the_same_verse_def
  is_seg1_overlapping_with_seg2_def is_seg2_within_seg1_radius_def max_radius_def
  Let_def exact_norm_x enumerate_eq_zip literal_0_55_def
  exact_ops_simps(1-7,9)

text \<open>
  C2 as stated, with ``non-zero-length'' read as a length other than zero, fails: in the
  section \<open>(0,0,0), (1,0,0), (0.999999,0,0)\<close> both segments have a non-zero length and
  satisfy the overlap condition, but the second one is dropped by the filter (its
  endpoints differ by one millionth, within the tolerance of \<^verbatim>\<open>np.allclose\<close>), and
  \<^verbatim>\<open>is_back_tracking\<close> returns \<open>False\<close>.
\<close>

theorem C2_counterexample:
  "\<not> is_back_tracking exact_ops near_zero_reversal
   \<and> sections near_zero_reversal
       = [[sample 0 0 0 1, sample 1 0 0 1, sample (999999 / 1000000) 0 0 1]]
   \<and> length [sample 0 0 0 1, sample 1 0 0 1, sample (999999 / 1000000) 0 0 1] > 2
   \<and> segment_length exact_ops (sample 0 0 0 1, sample 1 0 0 1) \<noteq> 0
   \<and> segment_length exact_ops (sample 1 0 0 1, sample (999999 / 1000000) 0 0 1) \<noteq> 0
   \<and> spec_overlap exact_ops (sample 1 0 0 1, sample (999999 / 1000000) 0 0 1)
        (sample 0 0 0 1, sample 1 0 0 1)"
proof -
  have 1: "\<not> is_back_tracking exact_ops near_zero_reversal"
    by (simp add: near_zero_reversal_def back_tracking_eval_simps)
  have 2: "sections near_zero_reversal
       = [[sample 0 0 0 1, sample 1 0 0 1, sample (999999 / 1000000) 0 0 1]]"
    by (simp add: near_zero_reversal_def sections_def)
  have 3: "segment_length exact_ops (sample 0 0 0 1, sample 1 0 0 1) \<noteq> 0"
    "segment_length exact_ops (sample 1 0 0 1, sample (999999 / 1000000) 0 0 1) \<noteq> 0"
    by (simp_all add: exact_ops_simps(5) euclidean_length_norm direction_def coords_def
        sample_def exact_norm_x exact_ops_simps(2))
  have 4: "spec_overlap exact_ops (sample 1 0 0 1, sample (999999 / 1000000) 0 0 1)
        (sample 0 0 0 1, sample 1 0 0 1)"
    by (simp add: spec_overlap_def direction_def coords_def sample_def
        max_radius_def Let_def exact_norm_x exact_ops_simps(1-7) literal_0_55_def)
  from 1 2 3 4 show ?thesis by simp
qed

text \<open>
  Two sections that back-track. In the second, \<open>(0,0,0), (100,0,0), (-5,0,0)\<close>, the
  projection has length 55 and the first segment length 100: the test holds because the
  double \<^verbatim>\<open>0.55\<close> is greater than \<open>55 / 100\<close>.
\<close>

theorem C2_is_back_tracking_iff_witness:
  "sections reversal_tree = [[sample 0 0 0 1, sample 2 0 0 1, sample 1 0 0 1]]
   \<and> is_back_tracking exact_ops reversal_tree
   \<and> sections long_reversal_tree = [[sample 0 0 0 1, sample 100 0 0 1, sample (- 5) 0 0 1]]
   \<and> np_linalg_norm exact_ops
        (vector_projection exact_ops (- 55, 0, 0)
           (direction exact_ops (sample 0 0 0 1, sample 100 0 0 1))) = 55
   \<and> 55 < fl_mul exact_ops literal_0_55
        (np_linalg_norm exact_ops (direction exact_ops (sample 0 0 0 1, sample 100 0 0 1)))
   \<and> is_back_tracking exact_ops long_reversal_tree"
proof -
  have s: "sections reversal_tree = [[sample 0 0 0 1, sample 2 0 0 1, sample 1 0 0 1]]"
    by (simp add: reversal_tree_def sections_def)
  have z: "is_not_zero_seg exact_ops (sample 0 0 0 1, sample 2 0 0 1)"
    "is_not_zero_seg exact_ops (sample 2 0 0 1, sample 1 0 0 1)"
    by (simp_all add: is_not_zero_seg_def coords_def sample_def isclose_def exact_ops_simps)
  have o: "spec_overlap exact_ops (sample 2 0 0 1, sample 1 0 0 1)
             (sample 0 0 0 1, sample 2 0 0 1)"
    by (simp add: spec_overlap_def direction_def coords_def sample_def
        max_radius_def Let_def exact_norm_x exact_ops_simps(1-7) literal_0_55_def)
  have "\<exists>sec \<in> set (sections reversal_tree). length sec > 2 \<and>
        (\<exists>i j. j < i \<and> i + 1 < length sec
           \<and> is_not_zero_seg exact_ops (sec ! j, sec ! (j + 1))
           \<and> is_not_zero_seg exact_ops (sec ! i, sec ! (i + 1))
           \<and> spec_overlap exact_ops (sec ! i, sec ! (i + 1)) (sec ! j, sec ! (j + 1)))"
    unfolding s using z o
    by (intro bexI [of _ "[sample 0 0 0 1, sample 2 0 0 1, sample 1 0 0 1]"] conjI
        exI [of _ 1] exI [of _ 0]) simp_all
  then have 1: "is_back_tracking exact_ops reversal_tree"
    by (simp only: C2_is_back_tracking_iff)
  have s': "sections long_reversal_tree
              = [[sample 0 0 0 1, sample 100 0 0 1, sample (- 5) 0 0 1]]"
    by (simp add: long_reversal_tree_def sections_def)
  have z': "is_not_zero_seg exact_ops (sample 0 0 0 1, sample 100 0 0 1)"
    "is_not_zero_seg exact_ops (sample 100 0 0 1, sample (- 5) 0 0 1)"
    by (simp_all add: is_not_zero_seg_def coords_def sample_def isclose_def exact_ops_simps)
  have o': "spec_overlap exact_ops (sample 100 0 0 1, sample (- 5) 0 0 1)
             (sample 0 0 0 1, sample 100 0 0 1)"
    by (simp add: spec_overlap_def direction_def coords_def sample_def
        max_radius_def Let_def exact_norm_x exact_ops_simps(1-7) literal_0_55_def)
  have "\<exists>sec \<in> set (sections long_reversal_tree). length sec > 2 \<and>
        (\<exists>i j. j < i \<and> i + 1 < length sec
           \<and> is_not_zero_seg exact_ops (sec ! j, sec ! (j + 1))
           \<and> is_not_zero_seg exact_ops (sec ! i, sec ! (i + 1))
           \<and> spec_overlap exact_ops (sec ! i, sec ! (i + 1)) (sec ! j, sec ! (j + 1)))"
    unfolding s' using z' o'
    by (intro bexI [of _ "[sample 0 0 0 1, sample 100 0 0 1, sample (- 5) 0 0 1]"] conjI
        exI [of _ 1] exI [of _ 0]) simp_all
  then have 2: "is_back_tracking exact_ops long_reversal_tree"
    by (simp only: C2_is_back_tracking_iff)
  have 3: "np_linalg_norm exact_ops
        (vector_projection exact_ops (- 55, 0, 0)
           (direction exact_ops (sample 0 0 0 1, sample 100 0 0 1))) = 55"
    by (simp add: direction_def coords_def sample_def exact_norm_x exact_ops_simps(1-7))
  have 4: "55 < fl_mul exact_ops literal_0_55
        (np_linalg_norm exact_ops (direction exact_ops (sample 0 0 0 1, sample 100 0 0 1)))"
    by (simp add: direction_def coords_def sample_def exact_norm_x exact_ops_simps(1-7)
        literal_0_55_def)
  from s 1 s' 2 3 4 show ?thesis by blast
qed

lemma dot_commute: "dot a b = dot b a"
  by (cases a, cases b) simp

lemma dot_vscale: "dot (vscale exact_ops a d) (vscale exact_ops b d) = a * b * dot d d"
  by (cases d) (simp add: algebra_simps exact_ops_simps)

lemma dot_self_nonneg: "0 \<le> dot d d"
  by (cases d) simp

lemma colinear_same_verse:
  assumes "colinear_same_direction sec" "seg1 \<in> set (pair sec)" "seg2 \<in> set (pair sec)"
  shows "is_in_the_same_verse exact_ops seg1 seg2"
proof -
  from assms obtain d c1 c2 where "0 \<le> c1" "direction exact_ops seg1 = vscale exact_ops c1 d"
    "0 \<le> c2" "direction exact_ops seg2 = vscale exact_ops c2 d"
    unfolding colinear_same_direction_def by blast
  then show ?thesis
    using dot_self_nonneg [of d]
    by (simp add: is_in_the_same_verse_def Let_def direction_def [symmetric] dot_vscale
        exact_ops_simps(7))
qed

text \<open>
  C3. With any arithmetic, a pair of segments whose directions have a non-negative dot
  product (as \<^verbatim>\<open>is_in_the_same_verse\<close> computes it) is never inside the cylinder, and on a
  tree in which every later segment of a section has a non-negative dot product with
  every earlier one \<^verbatim>\<open>is_back_tracking\<close> returns \<open>False\<close>. Without rounding, the same holds
  for the dot product in either order, and in particular \<^verbatim>\<open>is_back_tracking\<close> returns
  \<open>False\<close> on a tree whose sections are all made of colinear segments of the same
  direction, whatever the radii and distances.
\<close>

theorem C3_same_verse_exempt:
  "(is_in_the_same_verse ops seg1 seg2 \<longrightarrow> \<not> is_inside_cylinder ops seg1 seg2)
   \<and> ((\<forall>sec \<in> set (sections neurite). \<forall>i j. j < i \<and> i < length (pair sec)
          \<longrightarrow> np_dot ops (direction ops (pair sec ! j)) (direction ops (pair sec ! i)) \<ge> 0)
        \<longrightarrow> \<not> is_back_tracking ops neurite)
   \<and> ((\<forall>sec \<in> set (sections neurite). \<forall>i j. j < i \<and> i < length (pair sec)
          \<longrightarrow> dot (direction exact_ops (pair sec ! i)) (direction exact_ops (pair sec ! j)) \<ge> 0)
        \<longrightarrow> \<not> is_back_tracking exact_ops neurite)
   \<and> ((\<forall>sec \<in> set (sections neurite). colinear_same_direction sec)
        \<longrightarrow> \<not> is_back_tracking exact_ops neurite)"
proof (intro conjI impI)
  assume "is_in_the_same_verse ops seg1 seg2"
  then show "\<not> is_inside_cylinder ops seg1 seg2" by (simp add: is_inside_cylinder_def)
next
  assume nn: "\<forall>sec \<in> set (sections neurite). \<forall>i j. j < i \<and> i < length (pair sec)
          \<longrightarrow> np_dot ops (direction ops (pair sec ! j)) (direction ops (pair sec ! i)) \<ge> 0"
  show "\<not> is_back_tracking ops neurite"
  proof
    assume "is_back_tracking ops neurite"
    then obtain sec i j where sec: "sec \<in> set (sections neurite)"
      and ij: "j < i" "i < length (pair sec)"
      and c: "is_inside_cylinder ops (pair sec ! i) (pair sec ! j)"
      by (auto simp: is_back_tracking_def snode_loop_iff)
    from nn sec ij
    have "np_dot ops (direction ops (pair sec ! j)) (direction ops (pair sec ! i)) \<ge> 0"
      by blast
    then have "is_in_the_same_verse ops (pair sec ! i) (pair sec ! j)"
      by (simp add: is_in_the_same_verse_def Let_def direction_def)
    with c show False by (simp add: is_inside_cylinder_def)
  qed
next
  assume nn: "\<forall>sec \<in> set (sections neurite). \<forall>i j. j < i \<and> i < length (pair sec)
          \<longrightarrow> dot (direction exact_ops (pair sec ! i)) (direction exact_ops (pair sec ! j)) \<ge> 0"
  show "\<not> is_back_tracking exact_ops neurite"
  proof
    assume "is_back_tracking exact_ops neurite"
    then obtain sec i j where sec: "sec \<in> set (sections neurite)"
      and ij: "j < i" "i < length (pair sec)"
      and c: "is_inside_cylinder exact_ops (pair sec ! i) (pair sec ! j)"
      by (auto simp: is_back_tracking_def snode_loop_iff)
    from nn sec ij
    have "dot (direction exact_ops (pair sec ! i)) (direction exact_ops (pair sec ! j)) \<ge> 0"
      by blast
    then have "is_in_the_same_verse exact_ops (pair sec ! i) (pair sec ! j)"
      by (simp add: is_in_the_same_verse_def Let_def direction_def dot_commute
          exact_ops_simps(7))
    with c show False by (simp add: is_inside_cylinder_def)
  qed
next
  assume col: "\<forall>sec \<in> set (sections neurite). colinear_same_direction sec"
  show "\<not> is_back_tracking exact_ops neurite"
  proof
    assume "is_back_tracking exact_ops neurite"
    then obtain sec i j where sec: "sec \<in> set (sections neurite)"
      and ij: "j < i" "i < length (pair sec)"
      and c: "is_inside_cylinder exact_ops (pair sec ! i) (pair sec ! j)"
      by (auto simp: is_back_tracking_def snode_loop_iff)
    from ij have "pair sec ! i \<in> set (pair sec)" "pair sec ! j \<in> set (pair sec)" by simp_all
    with col sec have "is_in_the_same_verse exact_ops (pair sec ! i) (pair sec ! j)"
      by (blast intro: colinear_same_verse)
    with c show False by (simp add: is_inside_cylinder_def)
  qed
qed

text \<open>
  Three colinear segments of the same direction with radii larger than their lengths.
\<close>

theorem C3_same_verse_exempt_witness:
  "is_in_the_same_verse exact_ops (sample 1 0 0 5, sample 2 0 0 5) (sample 0 0 0 5, sample 1 0 0 5)
   \<and> \<not> is_inside_cylinder exact_ops (sample 1 0 0 5, sample 2 0 0 5)
         (sample 0 0 0 5, sample 1 0 0 5)
   \<and> sections colinear_tree = [[sample 0 0 0 5, sample 1 0 0 5, sample 2 0 0 5, sample 3 0 0 5]]
   \<and> colinear_same_direction [sample 0 0 0 5, sample 1 0 0 5, sample 2 0 0 5, sample 3 0 0 5]
   \<and> dot (direction exact_ops (sample 2 0 0 5, sample 3 0 0 5))
         (direction exact_ops (sample 0 0 0 5, sample 1 0 0 5)) = 1
   \<and> \<not> is_back_tracking exact_ops colinear_tree"
proof -
  let ?sec = "[sample 0 0 0 5, sample 1 0 0 5, sample 2 0 0 5, sample 3 0 0 5]"
  have v: "is_in_the_same_verse exact_ops (sample 1 0 0 5, sample 2 0 0 5)
             (sample 0 0 0 5, sample 1 0 0 5)"
    by (simp add: is_in_the_same_verse_def coords_def sample_def exact_ops_simps)
  have s: "sections colinear_tree = [?sec]"
    by (simp add: colinear_tree_def sections_def)
  have c: "colinear_same_direction ?sec"
    unfolding colinear_same_direction_def
    by (rule exI [of _ "(1, 0, 0)"])
      (auto simp: pair_def direction_def coords_def sample_def exact_ops_simps
        intro!: exI [of _ 1])
  have d: "dot (direction exact_ops (sample 2 0 0 5, sample 3 0 0 5))
             (direction exact_ops (sample 0 0 0 5, sample 1 0 0 5)) = 1"
    by (simp add: direction_def coords_def sample_def exact_ops_simps)
  from c s have b: "\<forall>sec \<in> set (sections colinear_tree). colinear_same_direction sec"
    by simp
  have nn: "\<forall>sec \<in> set (sections colinear_tree). \<forall>i j. j < i \<and> i < length (pair sec)
          \<longrightarrow> dot (direction exact_ops (pair sec ! i)) (direction exact_ops (pair sec ! j)) \<ge> 0"
  proof (intro ballI allI impI)
    fix sec i j
    assume "sec \<in> set (sections colinear_tree)" and ij: "j < i \<and> i < length (pair sec)"
    with s have sec: "sec = ?sec" by simp
    from ij have "pair sec ! i \<in> set (pair sec)" "pair sec ! j \<in> set (pair sec)" by simp_all
    with c sec have "is_in_the_same_verse exact_ops (pair sec ! i) (pair sec ! j)"
      by (blast intro: colinear_same_verse)
    then show "dot (direction exact_ops (pair sec ! i)) (direction exact_ops (pair sec ! j)) \<ge> 0"
      by (simp add: is_in_the_same_verse_def Let_def direction_def dot_commute
          exact_ops_simps(7))
  qed
  have nn': "\<forall>sec \<in> set (sections colinear_tree). \<forall>i j. j < i \<and> i < length (pair sec)
          \<longrightarrow> np_dot exact_ops (direction exact_ops (pair sec ! j))
                (direction exact_ops (pair sec ! i)) \<ge> 0"
    using nn by (simp add: exact_ops_simps(7) dot_commute)
  note inst = C3_same_verse_exempt [of exact_ops "(sample 1 0 0 5, sample 2 0 0 5)"
      "(sample 0 0 0 5, sample 1 0 0 5)" colinear_tree]
  from inst v have 1: "\<not> is_inside_cylinder exact_ops (sample 1 0 0 5, sample 2 0 0 5)
      (sample 0 0 0 5, sample 1 0 0 5)" by blast
  from inst nn' have 2: "\<not> is_back_tracking exact_ops colinear_tree" by blast
  from inst nn have 3: "\<not> is_back_tracking exact_ops colinear_tree" by blast
  from inst b have 4: "\<not> is_back_tracking exact_ops colinear_tree" by blast
  from v 1 s c d 2 show ?thesis by blast
qed

end
